theory Spec2Isabelle
  imports Complex_Main "HOL-Library.Word"
begin

unbundle bit_operations_syntax

section \<open>Serial.c: the circular byte buffer\<close>

text \<open>
  The buffer of Serial.c is a struct with a fixed array of \<open>QUEUESIZE\<close> bytes, two
  \<open>int\<close> indices, an \<open>unsigned int\<close> size and an \<open>unsigned char\<close> overflow counter.
  The indices are modelled as mathematical integers and the size as a natural number;
  every conversion to \<open>unsigned int\<close> that the C expressions perform is written out with
  \<open>to_unsigned\<close>.  The counter is an 8-bit word, so that \<open>overflowCount++\<close> wraps.
  A \<open>CBRef\<close> is a pointer that every function tests against \<open>NULL\<close>: it is modelled as a
  \<open>CircBuffer option\<close>, \<open>None\<close> being the null pointer.
\<close>

type_synonym uint8_t = "8 word"

definition QUEUESIZE :: nat where
  "QUEUESIZE = 512"

record CircBuffer =
  buffer :: "uint8_t list"
  head :: int
  tail :: int
  size_cb :: nat
  overflowCount :: uint8_t

definition to_unsigned :: "int \<Rightarrow> int" where
  "to_unsigned x = x mod 2 ^ 32"

text \<open>\<open>newCircBuffer\<close> overwrites every field of the struct it is given.\<close>

definition newCircBuffer :: CircBuffer where
  "newCircBuffer =
     \<lparr>buffer = replicate QUEUESIZE 0, head = 0, tail = 0, size_cb = QUEUESIZE, overflowCount = 0\<rparr>"

definition getLength :: "CircBuffer option \<Rightarrow> nat" where
  "getLength cB =
     (case cB of
        None \<Rightarrow> 0
      | Some q \<Rightarrow>
          if head q \<le> tail q then nat (to_unsigned (tail q - head q))
          else nat (to_unsigned (int (size_cb q) + tail q - head q)))"

definition peak :: "CircBuffer option \<Rightarrow> uint8_t" where
  "peak cB =
     (case cB of
        None \<Rightarrow> 0
      | Some q \<Rightarrow> if getLength cB > 0 then buffer q ! nat (head q) else 0)"

text \<open>
  \<open>readFront\<close> returns the byte and the buffer after the call.  The value 128 is what
  the source returns for an empty buffer and 254 what it returns for a null pointer.
  The array is read at \<open>head\<close>, which lies inside the array under \<open>cb_inv\<close> below.
\<close>

definition readFront :: "CircBuffer option \<Rightarrow> uint8_t \<times> CircBuffer option" where
  "readFront cB =
     (case cB of
        None \<Rightarrow> (254, None)
      | Some q \<Rightarrow>
          if getLength cB > 0 then
            (buffer q ! nat (head q),
             Some (q\<lparr>head := (if to_unsigned (head q) < to_unsigned (int (size_cb q) - 1)
                               then head q + 1 else 0)\<rparr>))
          else (128, cB))"

text \<open>
  \<open>writeBack\<close>: both \<open>return\<close> statements inside the non-null branch are commented
  out in the source, so the function falls through to the final \<open>return 0\<close> whether or
  not the byte was stored; 1 is returned for a null pointer only.
\<close>

definition writeBack :: "CircBuffer option \<Rightarrow> uint8_t \<Rightarrow> uint8_t \<times> CircBuffer option" where
  "writeBack cB data =
     (case cB of
        None \<Rightarrow> (1, None)
      | Some q \<Rightarrow>
          if int (getLength cB) = to_unsigned (int (size_cb q) - 1) then
            (0, Some (q\<lparr>overflowCount := overflowCount q + 1\<rparr>))
          else
            (0, Some (q\<lparr>buffer := (buffer q)[nat (tail q) := data],
                        tail := (if to_unsigned (tail q) < to_unsigned (int (size_cb q) - 1)
                                 then tail q + 1 else 0)\<rparr>)))"

definition getOverflow :: "CircBuffer option \<Rightarrow> uint8_t" where
  "getOverflow cB = (case cB of None \<Rightarrow> 0 | Some q \<Rightarrow> overflowCount q)"

definition makeEmpty :: "CircBuffer option \<Rightarrow> CircBuffer option" where
  "makeEmpty cB =
     (case cB of
        None \<Rightarrow> None
      | Some q \<Rightarrow>
          Some (q\<lparr>buffer := replicate (size_cb q) 0 @ drop (size_cb q) (buffer q),
                  head := 0, tail := 0, overflowCount := 0\<rparr>))"

text \<open>
  The representation invariant that \<open>newCircBuffer\<close> establishes and that every
  operation keeps: the array has \<open>QUEUESIZE\<close> cells, \<open>size\<close> is \<open>QUEUESIZE\<close>, and both
  indices are inside the array.
\<close>

definition cb_inv :: "CircBuffer \<Rightarrow> bool" where
  "cb_inv q \<longleftrightarrow>
     length (buffer q) = QUEUESIZE \<and> size_cb q = QUEUESIZE \<and>
     0 \<le> head q \<and> head q < int QUEUESIZE \<and> 0 \<le> tail q \<and> tail q < int QUEUESIZE"

text \<open>Repeated calls: \<open>n\<close> pops in a row, and a list of bytes pushed one after the other.\<close>

fun pop_n :: "nat \<Rightarrow> CircBuffer option \<Rightarrow> uint8_t list \<times> CircBuffer option" where
  "pop_n 0 cB = ([], cB)"
| "pop_n (Suc n) cB =
     (case readFront cB of (r, cB') \<Rightarrow> (case pop_n n cB' of (rs, cB'') \<Rightarrow> (r # rs, cB'')))"

fun push_all :: "uint8_t list \<Rightarrow> CircBuffer option \<Rightarrow> CircBuffer option" where
  "push_all [] cB = cB"
| "push_all (b # bs) cB = push_all bs (snd (writeBack cB b))"

text \<open>An interleaving of pushes and pops, with the bytes that the pops return.\<close>

datatype queue_op = Push uint8_t | Pop

fun run_ops :: "queue_op list \<Rightarrow> CircBuffer option \<Rightarrow> uint8_t list \<times> CircBuffer option" where
  "run_ops [] cB = ([], cB)"
| "run_ops (Push b # ops) cB = run_ops ops (snd (writeBack cB b))"
| "run_ops (Pop # ops) cB =
     (case readFront cB of (r, cB') \<Rightarrow> (case run_ops ops cB' of (rs, cB'') \<Rightarrow> (r # rs, cB'')))"

text \<open>
  \<open>within_capacity n ops\<close>: starting with \<open>n\<close> buffered bytes, no push of \<open>ops\<close> finds
  \<open>QUEUESIZE - 1\<close> bytes buffered already, and every pop finds a byte to take.
\<close>

fun within_capacity :: "nat \<Rightarrow> queue_op list \<Rightarrow> bool" where
  "within_capacity n [] = True"
| "within_capacity n (Push b # ops) = (n + 1 \<le> QUEUESIZE - 1 \<and> within_capacity (n + 1) ops)"
| "within_capacity n (Pop # ops) = (0 < n \<and> within_capacity (n - 1) ops)"

fun pushed :: "queue_op list \<Rightarrow> uint8_t list" where
  "pushed [] = []"
| "pushed (Push b # ops) = b # pushed ops"
| "pushed (Pop # ops) = pushed ops"

fun pops :: "queue_op list \<Rightarrow> nat" where
  "pops [] = 0"
| "pops (Push b # ops) = pops ops"
| "pops (Pop # ops) = Suc (pops ops)"

text \<open>The buffered bytes, oldest first: the cells from \<open>head\<close> up to \<open>tail\<close>, cyclically.\<close>

definition contents :: "CircBuffer \<Rightarrow> uint8_t list" where
  "contents q =
     map (\<lambda>i. buffer q ! ((nat (head q) + i) mod QUEUESIZE)) [0..<getLength (Some q)]"

section \<open>Gps.c: the UBX frame parser\<close>

type_synonym int32_t = "32 word"

text \<open>
  \<open>int32_t\<close> values are 32-bit words, read as two's complement with \<open>sint\<close>; the
  8-bit variables \<open>byteIndex\<close>, \<open>messageLength\<close>, \<open>messageClass\<close>, \<open>messageId\<close> and
  \<open>gpsStatus\<close> are 8-bit words, so that their assignments truncate as in C.
\<close>

definition RAW_BUFFER_SIZE :: nat where "RAW_BUFFER_SIZE = 255"
definition CHECKSUM_BYTES :: int where "CHECKSUM_BYTES = 2"
definition SYNC1_INDEX :: uint8_t where "SYNC1_INDEX = 0"
definition SYNC2_INDEX :: uint8_t where "SYNC2_INDEX = 1"
definition CLASS_INDEX :: uint8_t where "CLASS_INDEX = 2"
definition ID_INDEX :: uint8_t where "ID_INDEX = 3"
definition LENGTH1_INDEX :: uint8_t where "LENGTH1_INDEX = 4"
definition LENGTH2_INDEX :: uint8_t where "LENGTH2_INDEX = 5"
definition PAYLOAD_INDEX :: uint8_t where "PAYLOAD_INDEX = 6"
definition SYNC1_CHAR :: uint8_t where "SYNC1_CHAR = 0xB5"
definition SYNC2_CHAR :: uint8_t where "SYNC2_CHAR = 0x62"
definition NAV_CLASS :: uint8_t where "NAV_CLASS = 0x01"
definition NAV_POSLLH_ID :: uint8_t where "NAV_POSLLH_ID = 0x02"
definition NAV_STATUS_ID :: uint8_t where "NAV_STATUS_ID = 0x03"
definition NAV_VELOCITY_ID :: uint8_t where "NAV_VELOCITY_ID = 0x12"
definition NOFIX_STATUS :: uint8_t where "NOFIX_STATUS = 0x00"

datatype gps_state = STATE_IDLE | STATE_READ | STATE_PARSE

datatype retcode = SUCCESS | FAILURE | ERROR

text \<open>
  The file-scope variables of Gps.c, together with the two things of other modules
  that \<open>GPS_runSM\<close> reads.

  \<open>rawMessage\<close> is the array of \<open>RAW_BUFFER_SIZE\<close> bytes, given as the function from
  a cell's index to its content; the parser indexes it with \<open>byteIndex\<close> and with
  \<open>byteIndex + 1\<close>, \<open>+ 2\<close>, \<open>+ 3\<close> computed in \<open>int\<close>.  The cells of the array are
  those below \<open>RAW_BUFFER_SIZE\<close>; the frames considered below are shorter, so every
  cell they touch is one of the array.

  Modelled from the spec: the receive queue of the GPS serial channel, which lives in
  Uart.c (\<open>UART_isReceiveEmpty\<close>, \<open>UART_getChar\<close>).  \<open>uart_rx\<close> holds the bytes
  received and not yet taken, oldest first; the model does not bound it.

  Modelled from the spec: the timer \<open>TIMER_GPS\<close> of Timer.c.  \<open>timer_expired\<close> is what
  \<open>Timer_isExpired(TIMER_GPS)\<close> returns; \<open>Timer_new\<close> restarts the timer, which
  clears it.
\<close>

record gps =
  state :: gps_state
  rawMessage :: "nat \<Rightarrow> uint8_t"
  byteIndex :: uint8_t
  messageLength :: uint8_t
  messageClass :: uint8_t
  messageId :: uint8_t
  gpsStatus :: uint8_t
  hasNewMessage :: bool
  isConnected :: bool
  isUsingError :: bool
  hasPosition :: bool
  heading :: int32_t
  geodetic_latitude :: int32_t
  geodetic_longitude :: int32_t
  geodetic_altitude :: int32_t
  velocity_north :: int32_t
  velocity_east :: int32_t
  error_latitude :: int32_t
  error_longitude :: int32_t
  uart_rx :: "uint8_t list"
  timer_expired :: bool

text \<open>The variables as their initialisers leave them (\<open>messageLength = LENGTH2_INDEX + 1\<close>).\<close>

definition gps_init :: gps where
  "gps_init =
     \<lparr>state = STATE_IDLE, rawMessage = (\<lambda>_. 0), byteIndex = 0,
      messageLength = LENGTH2_INDEX + 1, messageClass = 0, messageId = 0,
      gpsStatus = NOFIX_STATUS, hasNewMessage = False, isConnected = False,
      isUsingError = False, hasPosition = False, heading = 0,
      geodetic_latitude = 0, geodetic_longitude = 0, geodetic_altitude = 0,
      velocity_north = 0, velocity_east = 0, error_latitude = 0, error_longitude = 0,
      uart_rx = [], timer_expired = False\<rparr>"

definition hasNewByte :: "gps \<Rightarrow> bool" where
  "hasNewByte s \<longleftrightarrow> uart_rx s \<noteq> []"

definition startIdleState :: "gps \<Rightarrow> gps" where
  "startIdleState s = s\<lparr>state := STATE_IDLE\<rparr>"

definition startReadState :: "gps \<Rightarrow> gps" where
  "startReadState s =
     s\<lparr>state := STATE_READ, byteIndex := 0, messageLength := PAYLOAD_INDEX,
       hasNewMessage := False\<rparr>"

definition startParseState :: "gps \<Rightarrow> gps" where
  "startParseState s = s\<lparr>state := STATE_PARSE, byteIndex := PAYLOAD_INDEX\<rparr>"

definition setConnected :: "gps \<Rightarrow> gps" where
  "setConnected s = s\<lparr>isConnected := True, timer_expired := False\<rparr>"

text \<open>
  \<open>messageLength += rawMessage[byteIndex] << 8\<close> and
  \<open>messageLength += PAYLOAD_INDEX + CHECKSUM_BYTES\<close>: the sum is computed in \<open>int\<close>
  (32 bits) and stored back into the 8-bit variable.
\<close>

definition add_length_high :: "uint8_t \<Rightarrow> uint8_t \<Rightarrow> uint8_t" where
  "add_length_high len c = ucast ((ucast len :: 32 word) + push_bit 8 (ucast c :: 32 word))"

definition add_length_overhead :: "uint8_t \<Rightarrow> uint8_t" where
  "add_length_overhead len =
     ucast ((ucast len :: 32 word) + (ucast PAYLOAD_INDEX + word_of_int CHECKSUM_BYTES))"

text \<open>
  \<open>readMessageByte\<close> is called with a byte waiting; it takes the oldest byte of the
  queue, stores it at \<open>byteIndex\<close> and looks at it according to \<open>byteIndex\<close>.  The two
  \<open>return FAILURE\<close> of the sync cases leave before \<open>byteIndex++\<close>.
\<close>

definition readMessageByte :: "gps \<Rightarrow> retcode \<times> gps" where
  "readMessageByte s =
     (if hasNewByte s \<and> \<not> hasNewMessage s then
        (let c = hd (uart_rx s);
             i = byteIndex s;
             s1 = s\<lparr>rawMessage := (rawMessage s)(unat i := c), uart_rx := tl (uart_rx s)\<rparr>
         in if i = SYNC1_INDEX then
              (if c \<noteq> SYNC1_CHAR then (FAILURE, s1)
               else (SUCCESS, s1\<lparr>byteIndex := i + 1\<rparr>))
            else if i = SYNC2_INDEX then
              (if c \<noteq> SYNC2_CHAR then (FAILURE, s1)
               else (SUCCESS, (setConnected s1)\<lparr>byteIndex := i + 1\<rparr>))
            else if i = CLASS_INDEX then
              (SUCCESS, s1\<lparr>messageClass := c, byteIndex := i + 1\<rparr>)
            else if i = ID_INDEX then
              (SUCCESS, s1\<lparr>messageId := c, byteIndex := i + 1\<rparr>)
            else if i = LENGTH1_INDEX then
              (SUCCESS, s1\<lparr>messageLength := c, byteIndex := i + 1\<rparr>)
            else if i = LENGTH2_INDEX then
              (SUCCESS,
               s1\<lparr>messageLength := add_length_overhead (add_length_high (messageLength s) c),
                  byteIndex := i + 1\<rparr>)
            else if uint i \<ge> uint (messageLength s) - 1 then
              (SUCCESS, s1\<lparr>hasNewMessage := True, byteIndex := i + 1\<rparr>)
            else (SUCCESS, s1\<lparr>byteIndex := i + 1\<rparr>))
      else (FAILURE, s))"

text \<open>The four bytes from cell \<open>i\<close> on, least significant first, as a 32-bit value.\<close>

definition unpack32 :: "(nat \<Rightarrow> uint8_t) \<Rightarrow> nat \<Rightarrow> int32_t" where
  "unpack32 raw i =
     ucast (raw i) + push_bit 8 (ucast (raw (i + 1))) + push_bit 16 (ucast (raw (i + 2)))
       + push_bit 24 (ucast (raw (i + 3)))"

text \<open>
  \<open>parsePayloadField\<close>: the three nested switches.  The innermost switch is on
  \<open>byteIndex - PAYLOAD_INDEX\<close>, an \<open>int\<close>; an offset without a case changes nothing.
  In the velocity message, case 28 has no \<open>break\<close> and runs on into case 32.
\<close>

definition parsePayloadField :: "gps \<Rightarrow> gps" where
  "parsePayloadField s =
     (let i = byteIndex s; off = uint i - uint PAYLOAD_INDEX; raw = rawMessage s in
      if messageClass s = NAV_CLASS then
        (if messageId s = NAV_POSLLH_ID then
           (if off = 0 then s\<lparr>byteIndex := i + 4\<rparr>
            else if off = 4 then
              s\<lparr>geodetic_longitude := unpack32 raw (unat i), byteIndex := i + 4\<rparr>
            else if off = 8 then
              s\<lparr>geodetic_latitude := unpack32 raw (unat i), byteIndex := i + 4\<rparr>
            else if off = 12 then s\<lparr>byteIndex := i + 4\<rparr>
            else if off = 16 then
              s\<lparr>geodetic_altitude := unpack32 raw (unat i), hasPosition := True,
                byteIndex := i + 4\<rparr>
            else if off = 20 then s\<lparr>byteIndex := i + 4\<rparr>
            else if off = 24 then s\<lparr>byteIndex := i + 4\<rparr>
            else s)
         else if messageId s = NAV_STATUS_ID then
           (if off = 0 then s\<lparr>byteIndex := i + 4\<rparr>
            else if off = 4 then s\<lparr>gpsStatus := raw (unat i), byteIndex := i + 1\<rparr>
            else if off = 5 then s\<lparr>byteIndex := i + 1\<rparr>
            else if off = 6 then s\<lparr>byteIndex := i + 1\<rparr>
            else if off = 7 then s\<lparr>byteIndex := i + 1\<rparr>
            else if off = 8 then s\<lparr>byteIndex := i + 4\<rparr>
            else if off = 12 then s\<lparr>byteIndex := i + 4\<rparr>
            else s)
         else if messageId s = NAV_VELOCITY_ID then
           (if off = 0 then s\<lparr>byteIndex := i + 4\<rparr>
            else if off = 4 then
              s\<lparr>velocity_north := unpack32 raw (unat i), byteIndex := i + 4\<rparr>
            else if off = 8 then
              s\<lparr>velocity_east := unpack32 raw (unat i), byteIndex := i + 4\<rparr>
            else if off = 12 then s\<lparr>byteIndex := i + 4\<rparr>
            else if off = 16 then s\<lparr>byteIndex := i + 4\<rparr>
            else if off = 20 then s\<lparr>byteIndex := i + 4\<rparr>
            else if off = 24 then
              s\<lparr>heading := unpack32 raw (unat i), byteIndex := i + 4\<rparr>
            else if off = 28 then s\<lparr>byteIndex := i + 4 + 4\<rparr>
            else if off = 32 then s\<lparr>byteIndex := i + 4\<rparr>
            else s)
         else s\<lparr>byteIndex := messageLength s\<rparr>)
      else s\<lparr>byteIndex := messageLength s\<rparr>)"

definition parseMessage :: "gps \<Rightarrow> retcode \<times> gps" where
  "parseMessage s =
     (if uint (byteIndex s) < uint (messageLength s) - CHECKSUM_BYTES
      then (SUCCESS, parsePayloadField s)
      else (SUCCESS, s\<lparr>hasNewMessage := False\<rparr>))"

text \<open>
  One call of \<open>GPS_runSM\<close>: the state's case, then the connection timeout.  In the read
  state \<open>readMessageByte\<close> is called only when a byte is waiting (\<open>&&\<close> evaluates its
  right operand only then).
\<close>

definition GPS_runSM :: "gps \<Rightarrow> gps" where
  "GPS_runSM s =
     (let s1 =
        (case state s of
           STATE_IDLE \<Rightarrow> if hasNewByte s then startReadState s else s
         | STATE_READ \<Rightarrow>
             (let s2 = (if hasNewByte s then
                          (if fst (readMessageByte s) \<noteq> SUCCESS
                           then startIdleState (snd (readMessageByte s))
                           else snd (readMessageByte s))
                        else s)
              in if hasNewMessage s2 then startParseState s2 else s2)
         | STATE_PARSE \<Rightarrow>
             if hasNewMessage s then snd (parseMessage s) else startIdleState s)
      in if timer_expired s1 then s1\<lparr>isConnected := False\<rparr> else s1)"

definition GPS_hasFix :: "gps \<Rightarrow> bool" where
  "GPS_hasFix s \<longleftrightarrow> gpsStatus s \<noteq> NOFIX_STATUS"

definition GPS_hasPosition :: "gps \<Rightarrow> bool" where
  "GPS_hasPosition s = hasPosition s"

text \<open>
  The accessors \<open>GPS_getLatitude\<close> and \<open>GPS_getLongitude\<close> compute an \<open>int32_t\<close> (the
  conditional expression), convert it to \<open>float\<close> and divide by 10000000.  The
  \<open>float\<close> type is not modelled: the conversion \<open>to_float\<close> of an integer and the
  division \<open>fdiv\<close> are parameters, so that what is proved holds whatever they round to.
  The integer subtraction is the wrap-around one of 32-bit words.
\<close>

definition COORDINATE_TO_DECIMAL :: "(int \<Rightarrow> 'f) \<Rightarrow> ('f \<Rightarrow> 'f \<Rightarrow> 'f) \<Rightarrow> 'f \<Rightarrow> 'f" where
  "COORDINATE_TO_DECIMAL to_float fdiv coord = fdiv coord (to_float 10000000)"

definition GPS_getLatitude :: "(int \<Rightarrow> 'f) \<Rightarrow> ('f \<Rightarrow> 'f \<Rightarrow> 'f) \<Rightarrow> gps \<Rightarrow> 'f" where
  "GPS_getLatitude to_float fdiv s =
     (let lat = to_float (sint (if isUsingError s
                                then geodetic_latitude s - error_latitude s
                                else geodetic_latitude s))
      in COORDINATE_TO_DECIMAL to_float fdiv lat)"

definition GPS_getLongitude :: "(int \<Rightarrow> 'f) \<Rightarrow> ('f \<Rightarrow> 'f \<Rightarrow> 'f) \<Rightarrow> gps \<Rightarrow> 'f" where
  "GPS_getLongitude to_float fdiv s =
     (let lon = to_float (sint (if isUsingError s
                                then geodetic_longitude s - error_longitude s
                                else geodetic_longitude s))
      in COORDINATE_TO_DECIMAL to_float fdiv lon)"

definition GPS_setLongitudeError :: "int32_t \<Rightarrow> gps \<Rightarrow> gps" where
  "GPS_setLongitudeError lonError s = s\<lparr>error_longitude := lonError\<rparr>"

definition GPS_setLatitudeError :: "int32_t \<Rightarrow> gps \<Rightarrow> gps" where
  "GPS_setLatitudeError latError s = s\<lparr>error_latitude := latError\<rparr>"

definition GPS_enableErrorCorrection :: "gps \<Rightarrow> gps" where
  "GPS_enableErrorCorrection s = s\<lparr>isUsingError := True\<rparr>"

definition GPS_disableErrorCorrection :: "gps \<Rightarrow> gps" where
  "GPS_disableErrorCorrection s = s\<lparr>isUsingError := False\<rparr>"

text \<open>
  The environment of the parser: the receive interrupt appends a byte to the queue.
  \<open>feed\<close> delivers the bytes of a list one per scheduler tick (a byte arrives, then
  \<open>GPS_runSM\<close> runs once); \<open>run_ticks n\<close> is \<open>n\<close> further ticks without a new byte.
\<close>

definition UART_receive :: "uint8_t \<Rightarrow> gps \<Rightarrow> gps" where
  "UART_receive b s = s\<lparr>uart_rx := uart_rx s @ [b]\<rparr>"

fun feed :: "uint8_t list \<Rightarrow> gps \<Rightarrow> gps" where
  "feed [] s = s"
| "feed (b # bs) s = feed bs (GPS_runSM (UART_receive b s))"

fun run_ticks :: "nat \<Rightarrow> gps \<Rightarrow> gps" where
  "run_ticks 0 s = s"
| "run_ticks (Suc n) s = run_ticks n (GPS_runSM s)"

text \<open>The fields of the navigation state that a decoded frame can set.\<close>

definition nav_fields ::
  "gps \<Rightarrow> int32_t \<times> int32_t \<times> int32_t \<times> int32_t \<times> int32_t \<times> int32_t \<times> uint8_t \<times> bool" where
  "nav_fields s =
     (geodetic_latitude s, geodetic_longitude s, geodetic_altitude s,
      velocity_north s, velocity_east s, heading s, gpsStatus s, hasPosition s)"

text \<open>A UBX frame: sync bytes, class, id, 16-bit payload length, payload, two checksum bytes.\<close>

definition ubx_frame :: "uint8_t \<Rightarrow> uint8_t \<Rightarrow> uint8_t list \<Rightarrow> uint8_t \<Rightarrow> uint8_t \<Rightarrow> uint8_t list" where
  "ubx_frame cls ident pl ck_a ck_b =
     [SYNC1_CHAR, SYNC2_CHAR, cls, ident,
      of_nat (length pl mod 256), of_nat (length pl div 256)] @ pl @ [ck_a, ck_b]"

text \<open>A 32-bit value as four bytes, least significant first.\<close>

definition le32 :: "32 word \<Rightarrow> uint8_t list" where
  "le32 w = [ucast w, ucast (drop_bit 8 w), ucast (drop_bit 16 w), ucast (drop_bit 24 w)]"

text \<open>
  For the statements about the receive buffer: \<open>store raw i xs\<close> is the array \<open>raw\<close>
  with the bytes \<open>xs\<close> written into the cells from \<open>i\<close> on.
\<close>

definition store :: "(nat \<Rightarrow> 'a) \<Rightarrow> nat \<Rightarrow> 'a list \<Rightarrow> nat \<Rightarrow> 'a" where
  "store raw i xs = (\<lambda>j. if i \<le> j \<and> j < i + length xs then xs ! (j - i) else raw j)"

section \<open>Mavlink.c: the command protocol\<close>

definition MAVLINK_MSG_ID_START_RESCUE :: uint8_t where "MAVLINK_MSG_ID_START_RESCUE = 241"
definition MAV_NUMBER :: uint8_t where "MAV_NUMBER = 15"
definition COMP_ID :: uint8_t where "COMP_ID = 15"

text \<open>
  Modelled from the spec: the macro \<open>TRUE\<close> of the absent board header, the truth
  value 1 that the \<open>ack\<close> byte of a rescue-start message is compared with.
\<close>

definition TRUE :: uint8_t where "TRUE = 1"

text \<open>
  A decoded message: its identifier and its payload buffer (a fixed array, given as
  the function from offset to byte).  The other header fields are not read by Mavlink.c.
\<close>

record mavlink_message_t =
  msgid :: uint8_t
  payload :: "nat \<Rightarrow> uint8_t"

record mavlink_start_rescue_t =
  latitude :: "32 word"
  longitude :: "32 word"
  ack :: uint8_t
  status :: uint8_t

text \<open>
  The rescue-start message of the generated header: latitude at offset 0, longitude at
  offset 4, the \<open>ack\<close> byte at 8 and the status byte at 9, multi-byte fields least
  significant byte first (both branches of the header's conditional compilation give
  this layout on the little-endian target).
\<close>

definition start_rescue_payload :: "uint8_t \<Rightarrow> uint8_t \<Rightarrow> 32 word \<Rightarrow> 32 word \<Rightarrow> uint8_t list" where
  "start_rescue_payload ack_v status_v latitude_v longitude_v =
     le32 latitude_v @ le32 longitude_v @ [ack_v, status_v]"

definition mavlink_msg_start_rescue_decode :: "mavlink_message_t \<Rightarrow> mavlink_start_rescue_t" where
  "mavlink_msg_start_rescue_decode msg =
     \<lparr>latitude = unpack32 (payload msg) 0, longitude = unpack32 (payload msg) 4,
      ack = payload msg 8, status = payload msg 9\<rparr>"

text \<open>
  What Mavlink.c uses and the repository's sources do not contain is collected in one
  record of parameters; \<open>'f\<close> is the state of the MAVLink library (its parser and its
  sequence counters) and \<open>'fl\<close> the type \<open>float\<close>.
  \<^item> \<open>mavlink_parse_char\<close>: the library's frame decoder, fed one byte; it returns the
    decoded message when the byte completes a frame.
  \<^item> \<open>mavlink_finalize_to_buffer\<close>: \<open>mavlink_finalize_message\<close> followed by
    \<open>mavlink_msg_to_send_buffer\<close>, from system id, component id, message id, payload
    and CRC seed to the bytes written into the send buffer (their number is the
    returned length).
  \<^item> \<open>mavlink_msg_mavlink_ack_pack\<close>: the same for the acknowledgment message, from
    system id, component id and message name.
  \<^item> \<open>mavlink_msg_mavlink_ack_decode\<close>: the \<open>Message_Name\<close> field of a decoded
    acknowledgment.
  \<^item> the constants \<open>MAVLINK_MAX_PACKET_LEN\<close>, the two message identifiers beside
    241, \<open>XBEE_UART_ID\<close> and \<open>messageName_start_rescue\<close>.
\<close>

record ('f, 'fl) mavlink_extern =
  mavlink_parse_char :: "'f \<Rightarrow> uint8_t \<Rightarrow> mavlink_message_t option \<times> 'f"
  mavlink_finalize_to_buffer ::
    "'f \<Rightarrow> uint8_t \<Rightarrow> uint8_t \<Rightarrow> uint8_t \<Rightarrow> uint8_t list \<Rightarrow> uint8_t \<Rightarrow> uint8_t list \<times> 'f"
  mavlink_msg_mavlink_ack_pack :: "'f \<Rightarrow> uint8_t \<Rightarrow> uint8_t \<Rightarrow> uint8_t \<Rightarrow> uint8_t list \<times> 'f"
  mavlink_msg_mavlink_ack_decode :: "mavlink_message_t \<Rightarrow> uint8_t"
  packet_rx_drop_count :: "'f \<Rightarrow> int"
  float_to_uint32 :: "'fl \<Rightarrow> 32 word"
  MAVLINK_MAX_PACKET_LEN :: nat
  MAVLINK_MSG_ID_XBEE_HEARTBEAT :: uint8_t
  MAVLINK_MSG_ID_MAVLINK_ACK :: uint8_t
  XBEE_UART_ID :: uint8_t
  messageName_start_rescue :: uint8_t

text \<open>
  Modelled from the spec: the struct \<open>ACK\<close> of the absent Mavlink.h, the spec's
  PendingAck record (status, last frame, its length, destination channel).  The source
  names two of the status values, \<open>ACK_STATUS_WAIT\<close> and \<open>ACK_STATUS_RECIEVED\<close>.
  \<open>last_buf\<close> is given as the function from index to byte; its declared size is not
  in the sources, and the model lets every index of the copy loop address a cell of it.
\<close>

datatype ack_status = ACK_STATUS_NONE | ACK_STATUS_WAIT | ACK_STATUS_RECIEVED

record ACK =
  ACK_status :: ack_status
  last_buf :: "nat \<Rightarrow> uint8_t"
  last_length :: nat
  last_uart_id :: uint8_t

text \<open>
  What Mavlink.c does to the outside, in the order in which it does it: a call of
  \<open>UART_putString\<close> with the channel and the bytes handed over, the hand-over of a
  heartbeat to the radio module, and the \<open>printf\<close> of \<open>Compas_recieve_start_rescue\<close>.
\<close>

datatype event =
    UART_putString uint8_t "uint8_t list"
  | Xbee_recieved_message_heartbeat mavlink_message_t
  | Printf_Lat_Long "32 word" "32 word"

text \<open>The variables of Mavlink.c, the library's state, and the trace of events.\<close>

record 'f mavlink_state =
  start_rescue :: ACK
  lib :: 'f
  packet_drops :: int
  trace :: "event list"

definition Mavlink_send_ACK ::
  "('f, 'fl) mavlink_extern \<Rightarrow> uint8_t \<Rightarrow> uint8_t \<Rightarrow> 'f mavlink_state \<Rightarrow> 'f mavlink_state" where
  "Mavlink_send_ACK X uart_id Message_Name st =
     (let packed = mavlink_msg_mavlink_ack_pack X (lib st) MAV_NUMBER COMP_ID Message_Name
      in st\<lparr>lib := snd packed, trace := trace st @ [UART_putString uart_id (fst packed)]\<rparr>)"

text \<open>
  \<open>Mavlink_send_start_rescue\<close>.  The send buffer \<open>buf\<close> is a local array that is not
  initialised: beyond the bytes written by the library it holds whatever the stack
  held, the parameter \<open>stack\<close>.  The copy loop runs for \<open>x = 0\<close> up to and including
  \<open>MAVLINK_MAX_PACKET_LEN\<close>.
\<close>

definition Mavlink_send_start_rescue ::
  "('f, 'fl) mavlink_extern \<Rightarrow> (nat \<Rightarrow> uint8_t) \<Rightarrow> uint8_t \<Rightarrow> uint8_t \<Rightarrow> uint8_t \<Rightarrow> 'fl \<Rightarrow> 'fl
     \<Rightarrow> 'f mavlink_state \<Rightarrow> 'f mavlink_state" where
  "Mavlink_send_start_rescue X stack uart_id ack_v status_v latitude_v longitude_v st =
     (let packed = mavlink_finalize_to_buffer X (lib st) MAV_NUMBER COMP_ID
                     MAVLINK_MSG_ID_START_RESCUE
                     (start_rescue_payload ack_v status_v
                        (float_to_uint32 X latitude_v) (float_to_uint32 X longitude_v)) 50;
          buf = store stack 0 (fst packed);
          len = length (fst packed);
          st1 = st\<lparr>lib := snd packed,
                   trace := trace st @ [UART_putString uart_id (map buf [0..<len])]\<rparr>
      in if ack_v = TRUE then
           st1\<lparr>start_rescue :=
                 \<lparr>ACK_status = ACK_STATUS_WAIT,
                  last_buf = (\<lambda>x. if x \<le> MAVLINK_MAX_PACKET_LEN X then buf x
                                   else last_buf (start_rescue st) x),
                  last_length = len,
                  last_uart_id = uart_id\<rparr>\<rparr>
         else st1)"

definition Mavlink_recieve_ACK ::
  "('f, 'fl) mavlink_extern \<Rightarrow> uint8_t \<Rightarrow> 'f mavlink_state \<Rightarrow> 'f mavlink_state" where
  "Mavlink_recieve_ACK X Message_Name st =
     (if Message_Name = messageName_start_rescue X
      then st\<lparr>start_rescue := (start_rescue st)\<lparr>ACK_status := ACK_STATUS_RECIEVED\<rparr>\<rparr>
      else st)"

definition Compas_recieve_start_rescue ::
  "mavlink_start_rescue_t \<Rightarrow> 'f mavlink_state \<Rightarrow> 'f mavlink_state" where
  "Compas_recieve_start_rescue packet st =
     st\<lparr>trace := trace st @ [Printf_Lat_Long (latitude packet) (longitude packet)]\<rparr>"

text \<open>
  \<open>Mavlink_resend_message\<close> works on the record it is given a pointer to and on the
  trace; \<open>resend_start_rescue\<close> is the call with the address of \<open>start_rescue\<close>.
\<close>

definition Mavlink_resend_message :: "ACK \<Rightarrow> event list \<Rightarrow> ACK \<times> event list" where
  "Mavlink_resend_message message tr =
     (message\<lparr>ACK_status := ACK_STATUS_WAIT\<rparr>,
      tr @ [UART_putString (last_uart_id message)
              (map (last_buf message) [0..<last_length message])])"

definition resend_start_rescue :: "'f mavlink_state \<Rightarrow> 'f mavlink_state" where
  "resend_start_rescue st =
     (let r = Mavlink_resend_message (start_rescue st) (trace st)
      in st\<lparr>start_rescue := fst r, trace := snd r\<rparr>)"

text \<open>
  The body of the \<open>switch\<close> on the message identifier in \<open>Mavlink_recieve\<close> (the case
  of the test message is compiled only with \<open>XBEE_TEST\<close> and is left out).  The case
  labels of a C switch are distinct; the model tests them in the source's order.
\<close>

definition handle_message ::
  "('f, 'fl) mavlink_extern \<Rightarrow> mavlink_message_t \<Rightarrow> 'f mavlink_state \<Rightarrow> 'f mavlink_state" where
  "handle_message X msg st =
     (if msgid msg = MAVLINK_MSG_ID_XBEE_HEARTBEAT X then
        st\<lparr>trace := trace st @ [Xbee_recieved_message_heartbeat msg]\<rparr>
      else if msgid msg = MAVLINK_MSG_ID_START_RESCUE then
        (let data = mavlink_msg_start_rescue_decode msg;
             st1 = (if ack data = TRUE
                    then Mavlink_send_ACK X (XBEE_UART_ID X) (messageName_start_rescue X) st
                    else st)
         in Compas_recieve_start_rescue data st1)
      else if msgid msg = MAVLINK_MSG_ID_MAVLINK_ACK X then
        Mavlink_recieve_ACK X (mavlink_msg_mavlink_ack_decode X msg) st
      else st)"

text \<open>
  The loop of \<open>Mavlink_recieve\<close> over the bytes waiting in the channel's receive queue
  (\<open>rx\<close>, oldest first), then the update of \<open>packet_drops\<close>.
\<close>

fun recieve_loop ::
  "('f, 'fl) mavlink_extern \<Rightarrow> uint8_t list \<Rightarrow> 'f mavlink_state \<Rightarrow> 'f mavlink_state" where
  "recieve_loop X [] st = st"
| "recieve_loop X (c # cs) st =
     (case fst (mavlink_parse_char X (lib st) c) of
        None \<Rightarrow> recieve_loop X cs (st\<lparr>lib := snd (mavlink_parse_char X (lib st) c)\<rparr>)
      | Some msg \<Rightarrow>
          recieve_loop X cs
            (handle_message X msg (st\<lparr>lib := snd (mavlink_parse_char X (lib st) c)\<rparr>)))"

definition Mavlink_recieve ::
  "('f, 'fl) mavlink_extern \<Rightarrow> uint8_t list \<Rightarrow> 'f mavlink_state \<Rightarrow> 'f mavlink_state" where
  "Mavlink_recieve X rx st =
     (let st' = recieve_loop X rx st
      in st'\<lparr>packet_drops := packet_drops st' + packet_rx_drop_count X (lib st')\<rparr>)"

text \<open>
  An instance of the parameters and a start state, for the concrete runs below: a
  decoder that answers the byte 0 with a rescue-start message for latitude 5 and
  longitude 6 whose \<open>ack\<close> byte is 1, and the byte 1 with one for latitude 8 and
  longitude 9 whose \<open>ack\<close> byte is 0, and encoders that put a start byte in front of
  what they are given.
\<close>

definition example_msg :: mavlink_message_t where
  "example_msg =
     \<lparr>msgid = 241,
      payload = (\<lambda>i. if i = 0 then 5 else if i = 4 then 6 else if i = 8 then 1 else 0)\<rparr>"

definition example_msg_noack :: mavlink_message_t where
  "example_msg_noack =
     \<lparr>msgid = 241, payload = (\<lambda>i. if i = 0 then 8 else if i = 4 then 9 else 0)\<rparr>"

definition example_extern :: "(unit, int) mavlink_extern" where
  "example_extern =
     \<lparr>mavlink_parse_char =
        (\<lambda>f c. (if c = 0 then Some example_msg
                 else if c = 1 then Some example_msg_noack else None, f)),
      mavlink_finalize_to_buffer = (\<lambda>f sysid compid mid pl crc. (0xFE # mid # pl, f)),
      mavlink_msg_mavlink_ack_pack = (\<lambda>f sysid compid name. ([0xFE, name], f)),
      mavlink_msg_mavlink_ack_decode = (\<lambda>m. payload m 0),
      packet_rx_drop_count = (\<lambda>f. 0),
      float_to_uint32 = word_of_int,
      MAVLINK_MAX_PACKET_LEN = 263,
      MAVLINK_MSG_ID_XBEE_HEARTBEAT = 0,
      MAVLINK_MSG_ID_MAVLINK_ACK = 1,
      XBEE_UART_ID = 1,
      messageName_start_rescue = 7\<rparr>"

definition mavlink_init :: "unit mavlink_state" where
  "mavlink_init =
     \<lparr>start_rescue = \<lparr>ACK_status = ACK_STATUS_NONE, last_buf = (\<lambda>_. 0), last_length = 0,
                       last_uart_id = 0\<rparr>,
      lib = (), packet_drops = 0, trace = []\<rparr>"

text \<open>
  For the statements about resynchronisation.  \<open>scanning s\<close>: the parser is idle, or
  in the read state about to test a first sync byte, and no byte waiting in the queue
  is the first sync byte.  \<open>ticks_left s\<close>: the number of ticks after which such a
  parser has emptied the queue (two per waiting byte, one less once in the read state).
\<close>

definition scanning :: "gps \<Rightarrow> bool" where
  "scanning s \<longleftrightarrow>
     (state s = STATE_IDLE \<or>
      (state s = STATE_READ \<and> byteIndex s = 0 \<and> \<not> hasNewMessage s \<and> uart_rx s \<noteq> [])) \<and>
     SYNC1_CHAR \<notin> set (uart_rx s)"

definition ticks_left :: "gps \<Rightarrow> nat" where
  "ticks_left s = 2 * length (uart_rx s) - (if state s = STATE_READ then 1 else 0)"

text \<open>
  The payload offsets of the four-byte fields that \<open>parsePayloadField\<close> decodes, by
  class and id, and the condition on a payload length \<open>L\<close> that each such field which
  starts inside the payload also ends inside it.
\<close>

definition decoded_fields :: "uint8_t \<Rightarrow> uint8_t \<Rightarrow> nat list" where
  "decoded_fields cls ident =
     (if cls = NAV_CLASS \<and> ident = NAV_POSLLH_ID then [4, 8, 16]
      else if cls = NAV_CLASS \<and> ident = NAV_VELOCITY_ID then [4, 8, 24]
      else [])"

definition fields_inside :: "uint8_t \<Rightarrow> uint8_t \<Rightarrow> nat \<Rightarrow> bool" where
  "fields_inside cls ident L \<longleftrightarrow>
     (\<forall>off \<in> set (decoded_fields cls ident). off < L \<longrightarrow> off + 4 \<le> L)"

section \<open>Properties of the circular buffer\<close>

lemma getLength_inv:
  assumes "cb_inv q"
  shows "int (getLength (Some q)) = (tail q - head q) mod 512"
proof (cases "head q \<le> tail q")
  case True
  with assms have "0 \<le> tail q - head q" "tail q - head q < 512"
    by (auto simp: cb_inv_def QUEUESIZE_def)
  then show ?thesis using True
    by (simp add: getLength_def to_unsigned_def)
next
  case False
  with assms have b: "0 \<le> 512 + tail q - head q" "512 + tail q - head q < 512"
    by (auto simp: cb_inv_def QUEUESIZE_def)
  have "(512 + (tail q - head q)) mod 512 = (tail q - head q) mod 512"
    by (rule mod_add_self1)
  then have "(tail q - head q) mod 512 = (512 + tail q - head q) mod 512"
    by (simp add: algebra_simps)
  also have "\<dots> = 512 + tail q - head q" using b by simp
  finally show ?thesis using False assms b
    by (simp add: getLength_def to_unsigned_def cb_inv_def QUEUESIZE_def)
qed

lemma getLength_bound: "cb_inv q \<Longrightarrow> getLength (Some q) < 512"
proof -
  assume "cb_inv q"
  then have "int (getLength (Some q)) < 512"
    by (simp add: getLength_inv)
  then show ?thesis by linarith
qed

lemma tail_eq: "cb_inv q \<Longrightarrow> tail q = (head q + int (getLength (Some q))) mod 512"
  by (simp add: getLength_inv cb_inv_def QUEUESIZE_def mod_simps)

lemma writeBack_full:
  assumes "cb_inv q" "getLength (Some q) = QUEUESIZE - 1"
  shows "writeBack (Some q) b = (0, Some (q\<lparr>overflowCount := overflowCount q + 1\<rparr>))"
  using assms by (simp add: writeBack_def cb_inv_def to_unsigned_def QUEUESIZE_def)

lemma writeBack_not_full:
  assumes "cb_inv q" "getLength (Some q) \<noteq> QUEUESIZE - 1"
  shows "writeBack (Some q) b =
           (0, Some (q\<lparr>buffer := (buffer q)[nat (tail q) := b],
                       tail := (tail q + 1) mod int QUEUESIZE\<rparr>))"
proof -
  have t: "0 \<le> tail q" "tail q < 512" using assms(1) by (auto simp: cb_inv_def QUEUESIZE_def)
  have "tail q < 511 \<or> tail q = 511" using t by arith
  then have "(if tail q < 511 then tail q + 1 else 0) = (tail q + 1) mod 512"
    using t by (elim disjE) simp_all
  then show ?thesis using assms t
    by (simp add: writeBack_def cb_inv_def to_unsigned_def QUEUESIZE_def)
qed

lemma readFront_empty:
  "getLength (Some q) = 0 \<Longrightarrow> readFront (Some q) = (128, Some q)"
  by (simp add: readFront_def)

lemma readFront_nonempty:
  assumes "cb_inv q" "0 < getLength (Some q)"
  shows "readFront (Some q) =
           (buffer q ! nat (head q), Some (q\<lparr>head := (head q + 1) mod int QUEUESIZE\<rparr>))"
proof -
  have t: "0 \<le> head q" "head q < 512" using assms(1) by (auto simp: cb_inv_def QUEUESIZE_def)
  have "head q < 511 \<or> head q = 511" using t by arith
  then have "(if head q < 511 then head q + 1 else 0) = (head q + 1) mod 512"
    using t by (elim disjE) simp_all
  then show ?thesis using assms t
    by (simp add: readFront_def cb_inv_def to_unsigned_def QUEUESIZE_def)
qed

lemma cb_inv_push: "cb_inv q \<Longrightarrow> cb_inv (q\<lparr>buffer := (buffer q)[i := b], tail := (tail q + 1) mod int QUEUESIZE\<rparr>)"
  by (simp add: cb_inv_def QUEUESIZE_def)

lemma cb_inv_pop: "cb_inv q \<Longrightarrow> cb_inv (q\<lparr>head := (head q + 1) mod int QUEUESIZE\<rparr>)"
  by (simp add: cb_inv_def QUEUESIZE_def)

lemma cb_inv_overflow: "cb_inv q \<Longrightarrow> cb_inv (q\<lparr>overflowCount := c\<rparr>)"
  by (simp add: cb_inv_def)

lemma getLength_push:
  assumes "cb_inv q" "getLength (Some q) \<noteq> QUEUESIZE - 1"
  shows "getLength (Some (q\<lparr>buffer := bf, tail := (tail q + 1) mod int QUEUESIZE\<rparr>))
           = getLength (Some q) + 1"
proof -
  let ?q' = "q\<lparr>buffer := bf, tail := (tail q + 1) mod int QUEUESIZE\<rparr>"
  have inv': "cb_inv (q\<lparr>buffer := (buffer q)[0 := 0], tail := (tail q + 1) mod int QUEUESIZE\<rparr>)"
    using assms(1) by (rule cb_inv_push)
  have l: "int (getLength (Some q)) < 511"
    using getLength_bound[OF assms(1)] assms(2) by (simp add: QUEUESIZE_def)
  have "getLength (Some ?q') = getLength (Some (q\<lparr>buffer := (buffer q)[0 := 0], tail := (tail q + 1) mod int QUEUESIZE\<rparr>))"
    by (simp add: getLength_def)
  then have "int (getLength (Some ?q')) = ((tail q + 1) mod 512 - head q) mod 512"
    using getLength_inv[OF inv'] by (simp add: QUEUESIZE_def)
  also have "\<dots> = ((tail q - head q) mod 512 + 1) mod 512"
    by (simp add: mod_simps algebra_simps)
  also have "\<dots> = (int (getLength (Some q)) + 1) mod 512"
    using getLength_inv[OF assms(1)] by simp
  also have "\<dots> = int (getLength (Some q)) + 1"
    using l by simp
  finally show ?thesis by linarith
qed

lemma getLength_pop:
  assumes "cb_inv q" "0 < getLength (Some q)"
  shows "getLength (Some (q\<lparr>head := (head q + 1) mod int QUEUESIZE\<rparr>)) = getLength (Some q) - 1"
proof -
  let ?q' = "q\<lparr>head := (head q + 1) mod int QUEUESIZE\<rparr>"
  have inv': "cb_inv ?q'" using assms(1) by (rule cb_inv_pop)
  have l: "0 < int (getLength (Some q))" "int (getLength (Some q)) < 512"
    using getLength_bound[OF assms(1)] assms(2) by simp_all
  have "int (getLength (Some ?q')) = (tail q - (head q + 1) mod 512) mod 512"
    using getLength_inv[OF inv'] by (simp add: QUEUESIZE_def)
  also have "\<dots> = ((tail q - head q) mod 512 - 1) mod 512"
    by (simp add: mod_simps algebra_simps)
  also have "\<dots> = (int (getLength (Some q)) - 1) mod 512"
    using getLength_inv[OF assms(1)] by simp
  also have "\<dots> = int (getLength (Some q)) - 1"
    using l by simp
  finally show ?thesis by linarith
qed

lemma mod_shift_neq:
  fixes h i n :: nat
  assumes "i < n" "n < 512"
  shows "(h + i) mod 512 \<noteq> (h + n) mod 512"
proof
  assume "(h + i) mod 512 = (h + n) mod 512"
  then have "(h + n) mod 512 = (h + i) mod 512" by simp
  moreover have "h + i \<le> h + n" using assms by simp
  ultimately have "512 dvd (h + n) - (h + i)"
    by (simp only: mod_eq_dvd_iff_nat)
  then have "(512::nat) dvd n - i" by simp
  moreover have "0 < n - i" "n - i < 512" using assms by simp_all
  ultimately show False by (meson nat_dvd_not_less)
qed

lemma nat_tail:
  assumes "cb_inv q"
  shows "nat (tail q) = (nat (head q) + getLength (Some q)) mod 512"
proof -
  have h: "0 \<le> head q" using assms by (simp add: cb_inv_def)
  have "nat (tail q) = nat ((head q + int (getLength (Some q))) mod 512)"
    using tail_eq[OF assms] by simp
  also have "\<dots> = (nat (head q) + getLength (Some q)) mod 512"
    using h by (simp add: nat_mod_distrib nat_add_distrib)
  finally show ?thesis .
qed

lemma contents_push:
  assumes "cb_inv q" "getLength (Some q) \<noteq> QUEUESIZE - 1"
  shows "contents (q\<lparr>buffer := (buffer q)[nat (tail q) := b],
                     tail := (tail q + 1) mod int QUEUESIZE\<rparr>) = contents q @ [b]"
proof -
  let ?n = "getLength (Some q)"
  let ?h = "nat (head q)"
  have n: "?n < 512" using assms(1) by (rule getLength_bound)
  have t: "nat (tail q) = (?h + ?n) mod 512" using assms(1) by (rule nat_tail)
  have tl: "nat (tail q) < length (buffer q)"
    using assms(1) by (auto simp: cb_inv_def QUEUESIZE_def)
  have old: "(buffer q)[nat (tail q) := b] ! ((?h + i) mod 512) = buffer q ! ((?h + i) mod 512)"
    if "i < ?n" for i
    using mod_shift_neq[OF that n, of ?h] t by simp
  have new: "(buffer q)[nat (tail q) := b] ! ((?h + ?n) mod 512) = b"
    using t tl by simp
  show ?thesis
    unfolding contents_def getLength_push[OF assms]
    by (simp add: QUEUESIZE_def old new)
qed

lemma nat_head_succ:
  assumes "cb_inv q"
  shows "nat ((head q + 1) mod 512) = (nat (head q) + 1) mod 512"
proof -
  have h: "0 \<le> head q" using assms by (simp add: cb_inv_def)
  then show ?thesis by (simp add: nat_mod_distrib nat_add_distrib)
qed

lemma contents_pop:
  assumes "cb_inv q" "0 < getLength (Some q)"
  shows "contents q = buffer q ! nat (head q) #
           contents (q\<lparr>head := (head q + 1) mod int QUEUESIZE\<rparr>)"
proof -
  let ?n = "getLength (Some q)"
  let ?h = "nat (head q)"
  have h: "?h < 512" using assms(1) by (auto simp: cb_inv_def QUEUESIZE_def)
  have up: "[0..<?n] = 0 # map Suc [0..<?n - 1]"
    using assms(2) by (metis map_Suc_upt Suc_pred upt_conv_Cons One_nat_def diff_Suc_1 upt_Suc)
  have sh: "(Suc ?h mod 512 + i) mod 512 = Suc (?h + i) mod 512" for i
    by (simp add: mod_simps)
  show ?thesis
    unfolding contents_def getLength_pop[OF assms]
    apply (subst up)
    using h by (simp add: QUEUESIZE_def nat_head_succ[OF assms(1)] sh comp_def)
qed

lemma length_contents: "length (contents q) = getLength (Some q)"
  by (simp add: contents_def)

lemma overflow_untouched_contents:
  "contents (q\<lparr>overflowCount := c\<rparr>) = contents q"
  by (simp add: contents_def getLength_def)

lemma getLength_overflow:
  "getLength (Some (q\<lparr>overflowCount := c\<rparr>)) = getLength (Some q)"
  by (simp add: getLength_def)

lemma push_all_general:
  assumes "cb_inv q"
  shows "\<exists>q'. push_all bs (Some q) = Some q' \<and> cb_inv q' \<and> head q' = head q \<and>
           getLength (Some q') = min (getLength (Some q) + length bs) (QUEUESIZE - 1) \<and>
           overflowCount q' =
             overflowCount q + of_nat (getLength (Some q) + length bs - (QUEUESIZE - 1)) \<and>
           contents q' = take (QUEUESIZE - 1) (contents q @ bs)"
  using assms
proof (induction bs arbitrary: q)
  case Nil
  have "getLength (Some q) \<le> QUEUESIZE - 1"
    using getLength_bound[OF Nil] by (simp add: QUEUESIZE_def)
  then show ?case using Nil by (simp add: length_contents)
next
  case (Cons b bs)
  show ?case
  proof (cases "getLength (Some q) = QUEUESIZE - 1")
    case True
    let ?q1 = "q\<lparr>overflowCount := overflowCount q + 1\<rparr>"
    have inv1: "cb_inv ?q1" using Cons.prems by (rule cb_inv_overflow)
    obtain q' where q': "push_all bs (Some ?q1) = Some q'" "cb_inv q'" "head q' = head ?q1"
      "getLength (Some q') = min (getLength (Some ?q1) + length bs) (QUEUESIZE - 1)"
      "overflowCount q' =
         overflowCount ?q1 + of_nat (getLength (Some ?q1) + length bs - (QUEUESIZE - 1))"
      "contents q' = take (QUEUESIZE - 1) (contents ?q1 @ bs)"
      using Cons.IH[OF inv1] by blast
    have step: "push_all (b # bs) (Some q) = push_all bs (Some ?q1)"
      by (simp add: writeBack_full[OF Cons.prems True])
    have ov: "overflowCount q' =
         overflowCount q + of_nat (getLength (Some q) + length (b # bs) - (QUEUESIZE - 1))"
      using q'(5) True by (simp add: getLength_overflow)
    show ?thesis
      using q' True step ov
      by (simp add: getLength_overflow overflow_untouched_contents length_contents)
  next
    case False
    let ?q1 = "q\<lparr>buffer := (buffer q)[nat (tail q) := b],
                  tail := (tail q + 1) mod int QUEUESIZE\<rparr>"
    have inv1: "cb_inv ?q1" using Cons.prems by (rule cb_inv_push)
    have len1: "getLength (Some ?q1) = getLength (Some q) + 1"
      using Cons.prems False by (rule getLength_push)
    have con1: "contents ?q1 = contents q @ [b]"
      using Cons.prems False by (rule contents_push)
    obtain q' where q': "push_all bs (Some ?q1) = Some q'" "cb_inv q'" "head q' = head ?q1"
      "getLength (Some q') = min (getLength (Some ?q1) + length bs) (QUEUESIZE - 1)"
      "overflowCount q' =
         overflowCount ?q1 + of_nat (getLength (Some ?q1) + length bs - (QUEUESIZE - 1))"
      "contents q' = take (QUEUESIZE - 1) (contents ?q1 @ bs)"
      using Cons.IH[OF inv1] by blast
    have step: "push_all (b # bs) (Some q) = push_all bs (Some ?q1)"
      by (simp add: writeBack_not_full[OF Cons.prems False])
    show ?thesis
      using q' step by (simp add: len1 con1)
  qed
qed

lemma run_ops_general:
  assumes "cb_inv q" "within_capacity (getLength (Some q)) ops"
  shows "\<exists>q'. run_ops ops (Some q) = (take (pops ops) (contents q @ pushed ops), Some q') \<and>
           cb_inv q' \<and> overflowCount q' = overflowCount q \<and>
           contents q' = drop (pops ops) (contents q @ pushed ops)"
  using assms
proof (induction ops arbitrary: q)
  case Nil
  then show ?case by simp
next
  case (Cons op ops)
  show ?case
  proof (cases op)
    case (Push b)
    have nf: "getLength (Some q) \<noteq> QUEUESIZE - 1"
      using Cons.prems(2) Push by simp
    let ?q1 = "q\<lparr>buffer := (buffer q)[nat (tail q) := b],
                  tail := (tail q + 1) mod int QUEUESIZE\<rparr>"
    have inv1: "cb_inv ?q1" using Cons.prems(1) by (rule cb_inv_push)
    have len1: "getLength (Some ?q1) = getLength (Some q) + 1"
      using Cons.prems(1) nf by (rule getLength_push)
    have con1: "contents ?q1 = contents q @ [b]"
      using Cons.prems(1) nf by (rule contents_push)
    have cap1: "within_capacity (getLength (Some ?q1)) ops"
      using Cons.prems(2) Push len1 by simp
    have step: "run_ops (op # ops) (Some q) = run_ops ops (Some ?q1)"
      using Push by (simp add: writeBack_not_full[OF Cons.prems(1) nf])
    show ?thesis
      using Cons.IH[OF inv1 cap1] step Push by (simp add: con1)
  next
    case Pop
    have ne: "0 < getLength (Some q)"
      using Cons.prems(2) Pop by simp
    let ?q1 = "q\<lparr>head := (head q + 1) mod int QUEUESIZE\<rparr>"
    have inv1: "cb_inv ?q1" using Cons.prems(1) by (rule cb_inv_pop)
    have len1: "getLength (Some ?q1) = getLength (Some q) - 1"
      using Cons.prems(1) ne by (rule getLength_pop)
    have con1: "contents q = buffer q ! nat (head q) # contents ?q1"
      using Cons.prems(1) ne by (rule contents_pop)
    have cap1: "within_capacity (getLength (Some ?q1)) ops"
      using Cons.prems(2) Pop len1 by simp
    obtain q' where q': "run_ops ops (Some ?q1) =
         (take (pops ops) (contents ?q1 @ pushed ops), Some q')" "cb_inv q'"
      "overflowCount q' = overflowCount ?q1"
      "contents q' = drop (pops ops) (contents ?q1 @ pushed ops)"
      using Cons.IH[OF inv1 cap1] by blast
    have "run_ops (op # ops) (Some q) =
            (buffer q ! nat (head q) # take (pops ops) (contents ?q1 @ pushed ops), Some q')"
      using Pop q'(1) by (simp add: readFront_nonempty[OF Cons.prems(1) ne])
    then show ?thesis
      using q' Pop by (simp add: con1)
  qed
qed

lemma pop_n_empty:
  "getLength (Some q) = 0 \<Longrightarrow> pop_n n (Some q) = (replicate n 128, Some q)"
  by (induction n) (simp_all add: readFront_empty)

lemma cb_inv_new: "cb_inv newCircBuffer"
  by (simp add: cb_inv_def newCircBuffer_def QUEUESIZE_def)

lemma within_capacity_take: "within_capacity n ops \<Longrightarrow> within_capacity n (take k ops)"
proof (induction ops arbitrary: n k)
  case Nil
  then show ?case by simp
next
  case (Cons op ops)
  then show ?case by (cases k; cases op) simp_all
qed

text \<open>
  C9.  However often \<open>readFront\<close> is called on an empty buffer, each call returns 128,
  the value the source returns for "no byte", and the buffer (head, tail and everything
  else) is exactly as it was before.
\<close>

theorem pop_empty_idempotent:
  "getLength (Some q) = 0 \<Longrightarrow> pop_n n (Some q) = (replicate n 128, Some q)"
  by (rule pop_n_empty)

theorem pop_empty_idempotent_witness:
  "getLength (Some newCircBuffer) = 0 \<and>
   pop_n 3 (Some newCircBuffer) = ([128, 128, 128], Some newCircBuffer)"
  using pop_empty_idempotent[of newCircBuffer 3]
  by (simp add: getLength_def newCircBuffer_def to_unsigned_def numeral_3_eq_3)

text \<open>
  C2, as the code has it.  On a buffer that satisfies the representation invariant,
  \<open>writeBack\<close> on a full buffer (length \<open>QUEUESIZE - 1\<close>) adds one to the overflow
  counter (an 8-bit counter, so modulo 256) and changes nothing else; on a buffer that
  is not full it stores the byte at \<open>tail\<close> and advances \<open>tail\<close> modulo \<open>QUEUESIZE\<close>.
  In both cases the value returned is 0.  Pushing any list of bytes into an empty buffer
  leaves the first \<open>QUEUESIZE - 1\<close> of them buffered and counts one overflow for each
  byte beyond that.
\<close>

theorem writeBack_contract:
  assumes "cb_inv q"
  shows "(getLength (Some q) = QUEUESIZE - 1 \<longrightarrow>
            writeBack (Some q) b = (0, Some (q\<lparr>overflowCount := overflowCount q + 1\<rparr>))) \<and>
         (getLength (Some q) \<noteq> QUEUESIZE - 1 \<longrightarrow>
            writeBack (Some q) b =
              (0, Some (q\<lparr>buffer := (buffer q)[nat (tail q) := b],
                          tail := (tail q + 1) mod int QUEUESIZE\<rparr>))) \<and>
         (getLength (Some q) = 0 \<longrightarrow>
            (\<exists>q'. push_all bs (Some q) = Some q' \<and>
                  getLength (Some q') = min (length bs) (QUEUESIZE - 1) \<and>
                  overflowCount q' = overflowCount q + of_nat (length bs - (QUEUESIZE - 1)) \<and>
                  contents q' = take (QUEUESIZE - 1) bs))"
proof (intro conjI impI)
  assume "getLength (Some q) = QUEUESIZE - 1"
  with assms show "writeBack (Some q) b = (0, Some (q\<lparr>overflowCount := overflowCount q + 1\<rparr>))"
    by (rule writeBack_full)
next
  assume "getLength (Some q) \<noteq> QUEUESIZE - 1"
  with assms show "writeBack (Some q) b =
              (0, Some (q\<lparr>buffer := (buffer q)[nat (tail q) := b],
                          tail := (tail q + 1) mod int QUEUESIZE\<rparr>))"
    by (rule writeBack_not_full)
next
  assume e: "getLength (Some q) = 0"
  then have "contents q = []"
    using length_contents[of q] by simp
  with push_all_general[OF assms, of bs] e
  show "\<exists>q'. push_all bs (Some q) = Some q' \<and>
                  getLength (Some q') = min (length bs) (QUEUESIZE - 1) \<and>
                  overflowCount q' = overflowCount q + of_nat (length bs - (QUEUESIZE - 1)) \<and>
                  contents q' = take (QUEUESIZE - 1) bs"
    by auto
qed

theorem writeBack_contract_witness:
  "cb_inv newCircBuffer \<and> getLength (Some newCircBuffer) = 0 \<and>
   writeBack (Some newCircBuffer) 7 =
     (0, Some (newCircBuffer\<lparr>buffer := (buffer newCircBuffer)[0 := 7], tail := 1\<rparr>)) \<and>
   (\<exists>q'. push_all [1, 2, 3] (Some newCircBuffer) = Some q' \<and> getLength (Some q') = 3 \<and>
         overflowCount q' = 0 \<and> contents q' = [1, 2, 3]) \<and>
   cb_inv (newCircBuffer\<lparr>tail := 511\<rparr>) \<and>
   getLength (Some (newCircBuffer\<lparr>tail := 511\<rparr>)) = QUEUESIZE - 1 \<and>
   writeBack (Some (newCircBuffer\<lparr>tail := 511\<rparr>)) 7 =
     (0, Some (newCircBuffer\<lparr>tail := 511, overflowCount := 1\<rparr>))"
proof -
  have e: "cb_inv newCircBuffer" "getLength (Some newCircBuffer) = 0"
    by (simp_all add: cb_inv_def getLength_def newCircBuffer_def to_unsigned_def QUEUESIZE_def)
  have f: "cb_inv (newCircBuffer\<lparr>tail := 511\<rparr>)"
    "getLength (Some (newCircBuffer\<lparr>tail := 511\<rparr>)) = QUEUESIZE - 1"
    by (simp_all add: cb_inv_def getLength_def newCircBuffer_def to_unsigned_def QUEUESIZE_def)
  show ?thesis
    using writeBack_contract[OF e(1), of 7 "[1, 2, 3]"] writeBack_contract[OF f(1), of 7 "[]"] e f
    by (simp add: QUEUESIZE_def numeral_3_eq_3) (simp add: newCircBuffer_def QUEUESIZE_def)
qed

text \<open>
  C2 as stated fails on the value returned: a push into a full buffer and a push into an
  empty one return the same value 0, so the result does not tell the caller whether the
  byte was stored.
\<close>

theorem writeBack_return_counterexample:
  "getLength (Some (newCircBuffer\<lparr>tail := 511\<rparr>)) = QUEUESIZE - 1 \<and>
   getLength (Some newCircBuffer) \<noteq> QUEUESIZE - 1 \<and>
   fst (writeBack (Some (newCircBuffer\<lparr>tail := 511\<rparr>)) 7) =
   fst (writeBack (Some newCircBuffer) 7)"
  by (simp add: writeBack_def getLength_def newCircBuffer_def to_unsigned_def QUEUESIZE_def)

text \<open>
  C5.  Take a buffer that satisfies the representation invariant and any interleaving
  of pushes and pops during which the number of buffered bytes never exceeds
  \<open>QUEUESIZE - 1\<close> and every pop finds a byte.  Then the pops return, in order, the
  bytes that were buffered at the start followed by the pushed bytes (first in, first
  out), and the overflow counter keeps its value, after the whole sequence and after
  every prefix of it.
\<close>

theorem queue_fifo_no_overflow:
  assumes "cb_inv q" and "within_capacity (getLength (Some q)) ops"
  shows "(\<exists>q'. run_ops ops (Some q) = (take (pops ops) (contents q @ pushed ops), Some q') \<and>
               overflowCount q' = overflowCount q) \<and>
         (\<forall>k. \<exists>outs q'. run_ops (take k ops) (Some q) = (outs, Some q') \<and>
               overflowCount q' = overflowCount q)"
proof
  show "\<exists>q'. run_ops ops (Some q) = (take (pops ops) (contents q @ pushed ops), Some q') \<and>
               overflowCount q' = overflowCount q"
    using run_ops_general[OF assms] by blast
next
  show "\<forall>k. \<exists>outs q'. run_ops (take k ops) (Some q) = (outs, Some q') \<and>
               overflowCount q' = overflowCount q"
  proof
    fix k
    have "within_capacity (getLength (Some q)) (take k ops)"
      using assms(2) by (rule within_capacity_take)
    from run_ops_general[OF assms(1) this]
    show "\<exists>outs q'. run_ops (take k ops) (Some q) = (outs, Some q') \<and>
               overflowCount q' = overflowCount q"
      by blast
  qed
qed

theorem queue_fifo_no_overflow_witness:
  "cb_inv newCircBuffer \<and>
   within_capacity (getLength (Some newCircBuffer)) [Push 1, Push 2, Pop, Push 3, Pop, Pop] \<and>
   (\<exists>q'. run_ops [Push 1, Push 2, Pop, Push 3, Pop, Pop] (Some newCircBuffer) =
            ([1, 2, 3], Some q') \<and> overflowCount q' = 0)"
proof -
  have e: "cb_inv newCircBuffer" "getLength (Some newCircBuffer) = 0"
    by (simp_all add: cb_inv_def getLength_def newCircBuffer_def to_unsigned_def QUEUESIZE_def)
  have w: "within_capacity (getLength (Some newCircBuffer)) [Push 1, Push 2, Pop, Push 3, Pop, Pop]"
    by (simp add: e QUEUESIZE_def)
  have c: "contents newCircBuffer = []"
    using length_contents[of newCircBuffer] e by simp
  show ?thesis
    using queue_fifo_no_overflow[OF e(1) w] e w c
    by (simp add: newCircBuffer_def)
qed

section \<open>Properties of the UBX parser\<close>

lemmas gps_consts = SYNC1_INDEX_def SYNC2_INDEX_def CLASS_INDEX_def ID_INDEX_def LENGTH1_INDEX_def
      LENGTH2_INDEX_def PAYLOAD_INDEX_def SYNC1_CHAR_def SYNC2_CHAR_def NAV_CLASS_def
      NAV_POSLLH_ID_def NAV_STATUS_ID_def NAV_VELOCITY_ID_def CHECKSUM_BYTES_def

lemma tick_idle:
  "state s = STATE_IDLE \<Longrightarrow> uart_rx s \<noteq> [] \<Longrightarrow>
   GPS_runSM s = s\<lparr>state := STATE_READ, byteIndex := 0, messageLength := 6,
       hasNewMessage := False, isConnected := isConnected s \<and> \<not> timer_expired s\<rparr>"
  by (simp add: GPS_runSM_def hasNewByte_def startReadState_def gps_consts Let_def)

lemma tick_idle_empty:
  "state s = STATE_IDLE \<Longrightarrow> uart_rx s = [] \<Longrightarrow>
   GPS_runSM s = s\<lparr>isConnected := isConnected s \<and> \<not> timer_expired s\<rparr>"
  by (simp add: GPS_runSM_def hasNewByte_def startReadState_def gps_consts Let_def)

lemma tick_read_sync1:
  "state s = STATE_READ \<Longrightarrow> uart_rx s \<noteq> [] \<Longrightarrow> \<not> hasNewMessage s \<Longrightarrow> byteIndex s = 0 \<Longrightarrow>
   GPS_runSM s =
     (if hd (uart_rx s) = 0xB5 then
        s\<lparr>rawMessage := (rawMessage s)(0 := hd (uart_rx s)), uart_rx := tl (uart_rx s), byteIndex := 1,
          isConnected := isConnected s \<and> \<not> timer_expired s\<rparr>
      else
        s\<lparr>rawMessage := (rawMessage s)(0 := hd (uart_rx s)), uart_rx := tl (uart_rx s), state := STATE_IDLE,
          isConnected := isConnected s \<and> \<not> timer_expired s\<rparr>)"
  by (simp add: GPS_runSM_def hasNewByte_def readMessageByte_def startIdleState_def Let_def gps_consts)

lemma tick_read_sync2:
  "state s = STATE_READ \<Longrightarrow> uart_rx s \<noteq> [] \<Longrightarrow> \<not> hasNewMessage s \<Longrightarrow> byteIndex s = 1 \<Longrightarrow>
   GPS_runSM s =
     (if hd (uart_rx s) = 0x62 then
        s\<lparr>rawMessage := (rawMessage s)(1 := hd (uart_rx s)), uart_rx := tl (uart_rx s), byteIndex := 2,
          isConnected := True, timer_expired := False\<rparr>
      else
        s\<lparr>rawMessage := (rawMessage s)(1 := hd (uart_rx s)), uart_rx := tl (uart_rx s), state := STATE_IDLE,
          isConnected := isConnected s \<and> \<not> timer_expired s\<rparr>)"
  by (simp add: GPS_runSM_def hasNewByte_def readMessageByte_def startIdleState_def
      setConnected_def Let_def gps_consts)

lemma tick_read_class:
  "state s = STATE_READ \<Longrightarrow> uart_rx s \<noteq> [] \<Longrightarrow> \<not> hasNewMessage s \<Longrightarrow> byteIndex s = 2 \<Longrightarrow>
   \<not> timer_expired s \<Longrightarrow>
   GPS_runSM s =
        s\<lparr>rawMessage := (rawMessage s)(2 := hd (uart_rx s)), uart_rx := tl (uart_rx s), messageClass := hd (uart_rx s), byteIndex := 3\<rparr>"
  by (simp add: GPS_runSM_def hasNewByte_def readMessageByte_def startIdleState_def
      setConnected_def Let_def gps_consts)

lemma tick_read_id:
  "state s = STATE_READ \<Longrightarrow> uart_rx s \<noteq> [] \<Longrightarrow> \<not> hasNewMessage s \<Longrightarrow> byteIndex s = 3 \<Longrightarrow>
   \<not> timer_expired s \<Longrightarrow>
   GPS_runSM s =
        s\<lparr>rawMessage := (rawMessage s)(3 := hd (uart_rx s)), uart_rx := tl (uart_rx s), messageId := hd (uart_rx s), byteIndex := 4\<rparr>"
  by (simp add: GPS_runSM_def hasNewByte_def readMessageByte_def startIdleState_def
      setConnected_def Let_def gps_consts)

lemma tick_read_length1:
  "state s = STATE_READ \<Longrightarrow> uart_rx s \<noteq> [] \<Longrightarrow> \<not> hasNewMessage s \<Longrightarrow> byteIndex s = 4 \<Longrightarrow>
   \<not> timer_expired s \<Longrightarrow>
   GPS_runSM s =
        s\<lparr>rawMessage := (rawMessage s)(4 := hd (uart_rx s)), uart_rx := tl (uart_rx s), messageLength := hd (uart_rx s), byteIndex := 5\<rparr>"
  by (simp add: GPS_runSM_def hasNewByte_def readMessageByte_def startIdleState_def
      setConnected_def Let_def gps_consts)

lemma tick_read_length2:
  "state s = STATE_READ \<Longrightarrow> uart_rx s \<noteq> [] \<Longrightarrow> \<not> hasNewMessage s \<Longrightarrow> byteIndex s = 5 \<Longrightarrow>
   \<not> timer_expired s \<Longrightarrow>
   GPS_runSM s =
        s\<lparr>rawMessage := (rawMessage s)(5 := hd (uart_rx s)), uart_rx := tl (uart_rx s),
          messageLength := add_length_overhead (add_length_high (messageLength s) (hd (uart_rx s))),
          byteIndex := 6\<rparr>"
  by (simp add: GPS_runSM_def hasNewByte_def readMessageByte_def startIdleState_def
      setConnected_def Let_def gps_consts)

lemma length_field: "add_length_overhead (add_length_high lo hi) = lo + 8"
  unfolding add_length_overhead_def add_length_high_def PAYLOAD_INDEX_def CHECKSUM_BYTES_def
  apply transfer
  apply (simp add: take_bit_eq_mod push_bit_eq_mult)
  apply presburger
  done

lemma body_index:
  assumes "6 \<le> unat (i :: uint8_t)"
  shows "i \<noteq> 0 \<and> i \<noteq> 1 \<and> i \<noteq> 2 \<and> i \<noteq> 3 \<and> i \<noteq> 4 \<and> i \<noteq> 5"
proof -
  have "unat i \<noteq> 0 \<and> unat i \<noteq> 1 \<and> unat i \<noteq> 2 \<and> unat i \<noteq> 3 \<and> unat i \<noteq> 4 \<and> unat i \<noteq> 5"
    using assms by arith
  then show ?thesis by fastforce
qed

lemma complete_test:
  "uint (i :: uint8_t) \<ge> uint (m :: uint8_t) - 1 \<longleftrightarrow> unat m \<le> unat i + 1"
  by (simp only: uint_nat) linarith

lemma tick_read_body:
  "state s = STATE_READ \<Longrightarrow> uart_rx s \<noteq> [] \<Longrightarrow> \<not> hasNewMessage s \<Longrightarrow>
   6 \<le> unat (byteIndex s) \<Longrightarrow> unat (byteIndex s) + 1 < unat (messageLength s) \<Longrightarrow>
   \<not> timer_expired s \<Longrightarrow>
   GPS_runSM s =
        s\<lparr>rawMessage := (rawMessage s)(unat (byteIndex s) := hd (uart_rx s)), uart_rx := tl (uart_rx s),
          byteIndex := byteIndex s + 1\<rparr>"
  using body_index[of "byteIndex s"]
  by (simp add: GPS_runSM_def hasNewByte_def readMessageByte_def startIdleState_def
      setConnected_def Let_def gps_consts complete_test)

lemma tick_read_last:
  "state s = STATE_READ \<Longrightarrow> uart_rx s \<noteq> [] \<Longrightarrow> \<not> hasNewMessage s \<Longrightarrow>
   6 \<le> unat (byteIndex s) \<Longrightarrow> unat (messageLength s) \<le> unat (byteIndex s) + 1 \<Longrightarrow>
   \<not> timer_expired s \<Longrightarrow>
   GPS_runSM s =
        s\<lparr>rawMessage := (rawMessage s)(unat (byteIndex s) := hd (uart_rx s)), uart_rx := tl (uart_rx s),
          hasNewMessage := True, state := STATE_PARSE, byteIndex := 6\<rparr>"
  using body_index[of "byteIndex s"]
  by (simp add: GPS_runSM_def hasNewByte_def readMessageByte_def startIdleState_def
      startParseState_def setConnected_def Let_def gps_consts complete_test)

lemma feed_append: "feed (xs @ ys) s = feed ys (feed xs s)"
  by (induction xs arbitrary: s) simp_all

lemma unat_succ: "unat (i :: uint8_t) + 1 < 256 \<Longrightarrow> unat (i + 1) = unat i + 1"
  by (simp add: unat_add_lem[THEN iffD1])

lemma store_Nil: "store raw i [] = raw"
  by (auto simp: store_def fun_eq_iff)

lemma store_Cons: "store raw i (x # xs) = store (raw(i := x)) (Suc i) xs"
  by (auto simp: store_def fun_eq_iff nth_Cons' Suc_diff_le)

lemma feed_body:
  assumes "state s = STATE_READ" "\<not> hasNewMessage s" "\<not> timer_expired s" "uart_rx s = [x]"
    "6 \<le> unat (byteIndex s)" "unat (byteIndex s) + length ys < unat (messageLength s)"
  shows "feed ys s =
     s\<lparr>rawMessage := store (rawMessage s) (unat (byteIndex s)) (butlast (x # ys)),
       uart_rx := [last (x # ys)],
       byteIndex := byteIndex s + of_nat (length ys)\<rparr>"
  using assms
proof (induction ys arbitrary: s x)
  case Nil
  have "s\<lparr>rawMessage := rawMessage s, uart_rx := uart_rx s, byteIndex := byteIndex s\<rparr> = s"
    by simp
  then show ?case using Nil.prems(4) by (simp add: store_Nil)
next
  case (Cons y ys)
  let ?i = "unat (byteIndex s)"
  let ?s0 = "UART_receive y s"
  let ?s1 = "s\<lparr>rawMessage := (rawMessage s)(?i := x), uart_rx := [y],
                byteIndex := byteIndex s + 1\<rparr>"
  have ml: "unat (messageLength s) < 256"
    using unsigned_less[of "messageLength s", where 'a = nat] by simp
  have step: "GPS_runSM ?s0 = ?s1"
    using Cons.prems tick_read_body[of ?s0]
    by (simp add: UART_receive_def)
  have idx: "unat (byteIndex s + 1) = Suc ?i"
    using Cons.prems(6) ml unat_succ[of "byteIndex s"] by simp
  have "feed ys ?s1 =
     ?s1\<lparr>rawMessage := store (rawMessage ?s1) (unat (byteIndex ?s1)) (butlast (y # ys)),
       uart_rx := [last (y # ys)],
       byteIndex := byteIndex ?s1 + of_nat (length ys)\<rparr>"
    using Cons.prems idx by (intro Cons.IH) simp_all
  then have ih: "feed ys ?s1 =
     s\<lparr>rawMessage := store ((rawMessage s)(?i := x)) (Suc ?i) (butlast (y # ys)),
       uart_rx := [last (y # ys)],
       byteIndex := byteIndex s + 1 + of_nat (length ys)\<rparr>"
    by (simp add: idx)
  have bl: "butlast (x # y # ys) = x # butlast (y # ys)" by simp
  have "feed (y # ys) s = feed ys ?s1"
    using step by simp
  also have "\<dots> = s\<lparr>rawMessage := store (rawMessage s) ?i (butlast (x # y # ys)),
       uart_rx := [last (x # y # ys)],
       byteIndex := byteIndex s + of_nat (length (y # ys))\<rparr>"
    unfolding ih bl store_Cons by (simp add: add.commute add.left_commute)
  finally show ?case .
qed

lemmas tick_simps = tick_idle tick_read_sync1 tick_read_sync2 tick_read_class tick_read_id
  tick_read_length1 tick_read_length2

lemma feed_header:
  assumes "state s = STATE_IDLE" "uart_rx s = []"
  shows "feed [0xB5, 0x62, cls, ident, lo, hi] s =
     s\<lparr>state := STATE_READ,
       rawMessage := store (rawMessage s) 0 [0xB5, 0x62, cls, ident, lo],
       uart_rx := [hi], byteIndex := 5, messageLength := lo, messageClass := cls,
       messageId := ident, hasNewMessage := False, isConnected := True,
       timer_expired := False\<rparr>"
  using assms
  by (simp add: UART_receive_def tick_simps store_Cons store_Nil eval_nat_numeral)

lemma store_snoc: "n = i + length xs \<Longrightarrow> (store raw i xs)(n := x) = store raw i (xs @ [x])"
  by (auto simp: store_def fun_eq_iff nth_append)

lemma store_append:
  "n = i + length xs \<Longrightarrow> store (store raw i xs) n ys = store raw i (xs @ ys)"
  by (auto simp: store_def fun_eq_iff nth_append)

lemma unat_small: "n < 256 \<Longrightarrow> unat (of_nat n :: uint8_t) = n"
  by (simp add: unat_of_nat take_bit_nat_eq_self)

lemma feed_frame:
  assumes idle: "state s = STATE_IDLE" and empty: "uart_rx s = []" and len: "length pl \<le> 247"
  shows "run_ticks 1 (feed (ubx_frame cls ident pl a b) s) =
     s\<lparr>state := STATE_PARSE,
       rawMessage := store (rawMessage s) 0 (ubx_frame cls ident pl a b),
       uart_rx := [], byteIndex := 6, messageLength := of_nat (length pl) + 8,
       messageClass := cls, messageId := ident, hasNewMessage := True, isConnected := True,
       timer_expired := False\<rparr>"
proof -
  let ?L = "length pl"
  let ?lo = "of_nat ?L :: uint8_t"
  let ?hdr = "[0xB5, 0x62, cls, ident, ?lo] :: uint8_t list"
  let ?r = "pl @ [a, b]"
  obtain r0 rs where r: "?r = r0 # rs"
    by (cases ?r) simp_all
  have lrs: "length rs = ?L + 1"
    using arg_cong[OF r, of length] by simp
  have frame: "ubx_frame cls ident pl a b = [0xB5, 0x62, cls, ident, ?lo, 0] @ r0 # rs"
    using len r by (simp add: ubx_frame_def gps_consts)
  let ?s5 = "s\<lparr>state := STATE_READ, rawMessage := store (rawMessage s) 0 ?hdr,
       uart_rx := [0], byteIndex := 5, messageLength := ?lo, messageClass := cls,
       messageId := ident, hasNewMessage := False, isConnected := True,
       timer_expired := False\<rparr>"
  have s5: "feed [0xB5, 0x62, cls, ident, ?lo, 0] s = ?s5"
    using idle empty by (rule feed_header)
  let ?s6 = "s\<lparr>state := STATE_READ, rawMessage := store (rawMessage s) 0 (?hdr @ [0]),
       uart_rx := [r0], byteIndex := 6, messageLength := ?lo + 8, messageClass := cls,
       messageId := ident, hasNewMessage := False, isConnected := True,
       timer_expired := False\<rparr>"
  have raw6: "(store (rawMessage s) 0 ?hdr)(5 := 0) = store (rawMessage s) 0 (?hdr @ [0])"
    by (rule store_snoc) simp
  have s6: "GPS_runSM (UART_receive r0 ?s5) = ?s6"
    by (simp add: UART_receive_def tick_read_length2 length_field raw6)
  have ml: "unat (?lo + 8) = ?L + 8"
    using len unat_small[of "?L + 8"] by simp
  have i6: "unat (6 :: uint8_t) = 6" by simp
  let ?s7 = "?s6\<lparr>rawMessage := store (rawMessage ?s6) (unat (byteIndex ?s6)) (butlast (r0 # rs)),
       uart_rx := [last (r0 # rs)],
       byteIndex := byteIndex ?s6 + of_nat (length rs)\<rparr>"
  have s7: "feed rs ?s6 = ?s7"
    using ml lrs by (intro feed_body) simp_all
  have lastb: "last (r0 # rs) = b"
    using arg_cong[OF r, of last] by simp
  have bl: "length (?hdr @ [0]) = 6" by simp
  have "store (store (rawMessage s) 0 (?hdr @ [0])) 6 (butlast (r0 # rs)) =
        store (rawMessage s) 0 ((?hdr @ [0]) @ butlast (r0 # rs))"
    by (rule store_append) simp
  then have raw7: "store (store (rawMessage s) 0 (?hdr @ [0])) 6 (butlast (r0 # rs)) =
        store (rawMessage s) 0 ([0xB5, 0x62, cls, ident, ?lo, 0] @ butlast (r0 # rs))"
    by simp
  have idx7: "(6 :: uint8_t) + of_nat (length rs) = of_nat (?L + 7)"
    using lrs by simp
  have u7: "unat (of_nat (?L + 7) :: uint8_t) = ?L + 7"
    using len by (intro unat_small) simp
  let ?s7' = "s\<lparr>state := STATE_READ,
       rawMessage := store (rawMessage s) 0 ([0xB5, 0x62, cls, ident, ?lo, 0] @ butlast (r0 # rs)),
       uart_rx := [b], byteIndex := of_nat (?L + 7), messageLength := ?lo + 8, messageClass := cls,
       messageId := ident, hasNewMessage := False, isConnected := True,
       timer_expired := False\<rparr>"
  have s7': "?s7 = ?s7'"
    using raw7 idx7 lastb by simp
  have lb: "length ([0xB5, 0x62, cls, ident, ?lo, 0] @ butlast (r0 # rs)) = ?L + 7"
    using lrs by (simp del: butlast.simps)
  have "(store (rawMessage s) 0 ([0xB5, 0x62, cls, ident, ?lo, 0] @ butlast (r0 # rs)))
           (?L + 7 := b) =
        store (rawMessage s) 0 (([0xB5, 0x62, cls, ident, ?lo, 0] @ butlast (r0 # rs)) @ [b])"
    by (rule store_snoc) (simp only: lb add_0)
  moreover have "butlast (r0 # rs) @ [b] = r0 # rs"
    using lastb by (metis append_butlast_last_id list.distinct(1))
  ultimately have raw8: "(store (rawMessage s) 0 ([0xB5, 0x62, cls, ident, ?lo, 0] @ butlast (r0 # rs)))
           (?L + 7 := b) = store (rawMessage s) 0 (ubx_frame cls ident pl a b)"
    unfolding frame by simp
  have last_tick: "GPS_runSM ?s7' =
     ?s7'\<lparr>rawMessage := (rawMessage ?s7')(unat (byteIndex ?s7') := hd (uart_rx ?s7')),
         uart_rx := tl (uart_rx ?s7'),
         hasNewMessage := True, state := STATE_PARSE, byteIndex := 6\<rparr>"
    using ml u7 by (intro tick_read_last) simp_all
  have "run_ticks 1 (feed (ubx_frame cls ident pl a b) s) = GPS_runSM (feed rs ?s6)"
    unfolding frame feed_append s5 using s6 by simp
  also have "\<dots> = GPS_runSM ?s7'"
    using s7 s7' by simp
  finally show ?thesis
    unfolding last_tick using raw8 u7 by simp
qed

lemma tick_parse_field:
  "state s = STATE_PARSE \<Longrightarrow> hasNewMessage s \<Longrightarrow> \<not> timer_expired s \<Longrightarrow>
   unat (byteIndex s) + 2 < unat (messageLength s) \<Longrightarrow>
   GPS_runSM s = parsePayloadField s"
proof -
  assume a: "state s = STATE_PARSE" "hasNewMessage s" "\<not> timer_expired s"
    "unat (byteIndex s) + 2 < unat (messageLength s)"
  have "uint (byteIndex s) < uint (messageLength s) - 2"
    using a(4) unfolding uint_nat by linarith
  moreover have "\<not> timer_expired (parsePayloadField s)"
    using a(3) by (simp add: parsePayloadField_def Let_def)
  ultimately show ?thesis using a
    by (simp add: GPS_runSM_def parseMessage_def CHECKSUM_BYTES_def)
qed

lemma tick_parse_done:
  "state s = STATE_PARSE \<Longrightarrow> hasNewMessage s \<Longrightarrow> \<not> timer_expired s \<Longrightarrow>
   unat (messageLength s) \<le> unat (byteIndex s) + 2 \<Longrightarrow>
   GPS_runSM s = s\<lparr>hasNewMessage := False\<rparr>"
proof -
  assume a: "state s = STATE_PARSE" "hasNewMessage s" "\<not> timer_expired s"
    "unat (messageLength s) \<le> unat (byteIndex s) + 2"
  have "\<not> uint (byteIndex s) < uint (messageLength s) - 2"
    using a(4) unfolding uint_nat by linarith
  then show ?thesis using a
    by (simp add: GPS_runSM_def parseMessage_def CHECKSUM_BYTES_def)
qed

lemma tick_parse_idle:
  "state s = STATE_PARSE \<Longrightarrow> \<not> hasNewMessage s \<Longrightarrow> \<not> timer_expired s \<Longrightarrow>
   GPS_runSM s = s\<lparr>state := STATE_IDLE\<rparr>"
  by (simp add: GPS_runSM_def startIdleState_def)

lemma posllh_skip:
  "messageClass s = 1 \<Longrightarrow> messageId s = 2 \<Longrightarrow>
   byteIndex s = 6 \<or> byteIndex s = 18 \<or> byteIndex s = 26 \<or> byteIndex s = 30 \<Longrightarrow>
   parsePayloadField s = s\<lparr>byteIndex := byteIndex s + 4\<rparr>"
  by (elim disjE) (simp_all add: parsePayloadField_def Let_def gps_consts)

lemma posllh_lon:
  "messageClass s = 1 \<Longrightarrow> messageId s = 2 \<Longrightarrow> byteIndex s = 10 \<Longrightarrow>
   parsePayloadField s =
     s\<lparr>geodetic_longitude := unpack32 (rawMessage s) 10, byteIndex := 14\<rparr>"
  by (simp add: parsePayloadField_def Let_def gps_consts)

lemma posllh_lat:
  "messageClass s = 1 \<Longrightarrow> messageId s = 2 \<Longrightarrow> byteIndex s = 14 \<Longrightarrow>
   parsePayloadField s =
     s\<lparr>geodetic_latitude := unpack32 (rawMessage s) 14, byteIndex := 18\<rparr>"
  by (simp add: parsePayloadField_def Let_def gps_consts)

lemma posllh_alt:
  "messageClass s = 1 \<Longrightarrow> messageId s = 2 \<Longrightarrow> byteIndex s = 22 \<Longrightarrow>
   parsePayloadField s =
     s\<lparr>geodetic_altitude := unpack32 (rawMessage s) 22, hasPosition := True, byteIndex := 26\<rparr>"
  by (simp add: parsePayloadField_def Let_def gps_consts)

lemma run_ticks_add: "run_ticks (m + n) s = run_ticks n (run_ticks m s)"
  by (induction m arbitrary: s) simp_all

lemma run_ticks_9:
  "run_ticks 9 s = GPS_runSM (GPS_runSM (GPS_runSM (GPS_runSM (GPS_runSM (GPS_runSM
     (GPS_runSM (GPS_runSM (GPS_runSM s))))))))"
  by (simp add: eval_nat_numeral)

lemma list4: "length xs = 4 \<Longrightarrow> \<exists>a b c d. xs = [a, b, c, d]"
  by (auto simp: length_Suc_conv eval_nat_numeral)

lemma list8: "length xs = 8 \<Longrightarrow> \<exists>a b c d e f g h. xs = [a, b, c, d, e, f, g, h]"
  by (auto simp: length_Suc_conv eval_nat_numeral)

lemma posllh_parse:
  assumes "raw 10 = 0x87" "raw 11 = 0xD6" "raw 12 = 0x12" "raw 13 = 0"
    "raw 14 = 0xB1" "raw 15 = 0xCB" "raw 16 = 0x74" "raw 17 = 0"
    "raw 22 = 0xE8" "raw 23 = 0x03" "raw 24 = 0" "raw 25 = 0"
  shows "unpack32 raw 10 = 1234567 \<and> unpack32 raw 14 = 7654321 \<and> unpack32 raw 22 = 1000"
  using assms by (simp add: unpack32_def)

lemma parse_posllh_28:
  assumes "state s = STATE_PARSE" "hasNewMessage s" "\<not> timer_expired s" "byteIndex s = 6"
    "messageLength s = 36" "messageClass s = 1" "messageId s = 2"
  shows "run_ticks 9 s =
     s\<lparr>geodetic_longitude := unpack32 (rawMessage s) 10,
       geodetic_latitude := unpack32 (rawMessage s) 14,
       geodetic_altitude := unpack32 (rawMessage s) 22,
       hasPosition := True, byteIndex := 34, hasNewMessage := False, state := STATE_IDLE\<rparr>"
  unfolding run_ticks_9 using assms
  by (simp add: tick_parse_field tick_parse_done tick_parse_idle posllh_skip posllh_lon
      posllh_lat posllh_alt)

text \<open>
  C1.  From the idle state with an empty receive queue, feed one byte per tick the
  position frame \<open>B5 62 01 02\<close>, length bytes 28 and 0, a 28-byte payload that holds
  longitude 1234567 at offset 4, latitude 7654321 at offset 8 and altitude 1000 at offset
  16 (least significant byte first; the other payload bytes are arbitrary), and two
  arbitrary checksum bytes; then let the state machine run ten more ticks (it reads the
  last byte, parses seven fields, ends the parse and goes idle).  The stored latitude is
  7654321, the longitude 1234567, the altitude 1000, \<open>hasPosition\<close> is set, and the
  parser is idle again.
\<close>

theorem posllh_frame_decoded:
  assumes "state s = STATE_IDLE" and "uart_rx s = []"
    and "length itow = 4" and "length height = 4" and "length acc = 8"
  shows "let s' = run_ticks 10 (feed (ubx_frame NAV_CLASS NAV_POSLLH_ID
                     (itow @ le32 1234567 @ le32 7654321 @ height @ le32 1000 @ acc)
                     ck_a ck_b) s)
         in sint (geodetic_latitude s') = 7654321 \<and> sint (geodetic_longitude s') = 1234567 \<and>
            sint (geodetic_altitude s') = 1000 \<and> hasPosition s' \<and> state s' = STATE_IDLE"
proof -
  let ?pl = "itow @ le32 1234567 @ le32 7654321 @ height @ le32 1000 @ acc"
  let ?frame = "ubx_frame NAV_CLASS NAV_POSLLH_ID ?pl ck_a ck_b"
  let ?raw = "store (rawMessage s) 0 ?frame"
  have len: "length ?pl = 28"
    using assms(3-5) by (simp add: le32_def)
  have len247: "length ?pl \<le> 247"
    unfolding len by simp
  let ?p = "s\<lparr>state := STATE_PARSE, rawMessage := ?raw,
       uart_rx := [], byteIndex := 6, messageLength := 36,
       messageClass := NAV_CLASS, messageId := NAV_POSLLH_ID, hasNewMessage := True,
       isConnected := True, timer_expired := False\<rparr>"
  have "(of_nat (length ?pl) :: uint8_t) + 8 = 36"
    unfolding len by simp
  then have read: "run_ticks 1 (feed ?frame s) = ?p"
    using feed_frame[OF assms(1,2) len247, of NAV_CLASS NAV_POSLLH_ID ck_a ck_b]
    by (simp only:)
  obtain t0 t1 t2 t3 where itow: "itow = [t0, t1, t2, t3]"
    using list4[OF assms(3)] by blast
  obtain h0 h1 h2 h3 where height: "height = [h0, h1, h2, h3]"
    using list4[OF assms(4)] by blast
  have cells: "?raw 10 = 0x87" "?raw 11 = 0xD6" "?raw 12 = 0x12" "?raw 13 = 0"
    "?raw 14 = 0xB1" "?raw 15 = 0xCB" "?raw 16 = 0x74" "?raw 17 = 0"
    "?raw 22 = 0xE8" "?raw 23 = 0x03" "?raw 24 = 0" "?raw 25 = 0"
    using assms(5) by (simp_all add: store_def ubx_frame_def le32_def itow height)
  have vals: "unpack32 ?raw 10 = 1234567 \<and> unpack32 ?raw 14 = 7654321 \<and> unpack32 ?raw 22 = 1000"
    using cells by (rule posllh_parse)
  have parse: "run_ticks 9 ?p =
     ?p\<lparr>geodetic_longitude := unpack32 (rawMessage ?p) 10,
       geodetic_latitude := unpack32 (rawMessage ?p) 14,
       geodetic_altitude := unpack32 (rawMessage ?p) 22,
       hasPosition := True, byteIndex := 34, hasNewMessage := False, state := STATE_IDLE\<rparr>"
    by (intro parse_posllh_28) (simp_all add: gps_consts)
  have "run_ticks 10 (feed ?frame s) = run_ticks 9 (run_ticks 1 (feed ?frame s))"
    using run_ticks_add[of 1 9] by simp
  then have "run_ticks 10 (feed ?frame s) = run_ticks 9 ?p"
    using read by simp
  then show ?thesis
    unfolding Let_def parse using vals by simp
qed

theorem posllh_frame_decoded_witness:
  "state gps_init = STATE_IDLE \<and> uart_rx gps_init = [] \<and>
   (let s' = run_ticks 10 (feed (ubx_frame NAV_CLASS NAV_POSLLH_ID
                     ([1, 2, 3, 4] @ le32 1234567 @ le32 7654321 @ [5, 6, 7, 8] @ le32 1000 @
                      [9, 10, 11, 12, 13, 14, 15, 16])
                     0xAA 0xBB) gps_init)
    in sint (geodetic_latitude s') = 7654321 \<and> sint (geodetic_longitude s') = 1234567 \<and>
       sint (geodetic_altitude s') = 1000 \<and> hasPosition s' \<and> state s' = STATE_IDLE)"
proof -
  have a: "state gps_init = STATE_IDLE" and b: "uart_rx gps_init = []"
    by (simp_all add: gps_init_def)
  have l4: "length [1, 2, 3, 4 :: uint8_t] = 4" "length [5, 6, 7, 8 :: uint8_t] = 4"
    and l8: "length [9, 10, 11, 12, 13, 14, 15, 16 :: uint8_t] = 8"
    by simp_all
  show ?thesis
    by (intro conjI a b posllh_frame_decoded[OF a b l4 l8])
qed

lemma scanning_tick:
  assumes "scanning s"
  shows "scanning (GPS_runSM s) \<and> nav_fields (GPS_runSM s) = nav_fields s \<and>
         ticks_left (GPS_runSM s) = ticks_left s - 1"
proof (cases "state s = STATE_IDLE")
  case True
  show ?thesis
  proof (cases "uart_rx s = []")
    case True
    with \<open>state s = STATE_IDLE\<close> assms show ?thesis
      by (simp add: tick_idle_empty scanning_def nav_fields_def ticks_left_def)
  next
    case False
    with \<open>state s = STATE_IDLE\<close> assms show ?thesis
      by (simp add: tick_idle scanning_def nav_fields_def ticks_left_def)
  qed
next
  case False
  with assms have r: "state s = STATE_READ" "byteIndex s = 0" "\<not> hasNewMessage s"
    "uart_rx s \<noteq> []" "SYNC1_CHAR \<notin> set (uart_rx s)"
    by (auto simp: scanning_def)
  have h: "hd (uart_rx s) \<noteq> 0xB5"
    using r(4,5) by (cases "uart_rx s") (auto simp: SYNC1_CHAR_def)
  have t: "SYNC1_CHAR \<notin> set (tl (uart_rx s))"
    using r(4,5) by (cases "uart_rx s") auto
  have l: "2 * length (tl (uart_rx s)) = 2 * length (uart_rx s) - 1 - 1"
    using r(4) by (cases "uart_rx s") auto
  show ?thesis
    using r h t l by (simp add: tick_read_sync1 scanning_def nav_fields_def ticks_left_def)
qed

lemma scanning_feed_tick:
  assumes "scanning s" "b \<noteq> SYNC1_CHAR"
  shows "scanning (GPS_runSM (UART_receive b s)) \<and>
         nav_fields (GPS_runSM (UART_receive b s)) = nav_fields s \<and>
         ticks_left (GPS_runSM (UART_receive b s)) = ticks_left s + 1"
proof -
  have a: "scanning (UART_receive b s)"
    using assms by (auto simp: scanning_def UART_receive_def)
  have b: "nav_fields (UART_receive b s) = nav_fields s"
    by (simp add: nav_fields_def UART_receive_def)
  have c: "ticks_left (UART_receive b s) = ticks_left s + 2"
    using assms(1) by (auto simp: scanning_def ticks_left_def UART_receive_def)
  show ?thesis
    using scanning_tick[OF a] b c by simp
qed

lemma scanning_feed:
  assumes "scanning s" "SYNC1_CHAR \<notin> set bs"
  shows "scanning (feed bs s) \<and> nav_fields (feed bs s) = nav_fields s \<and>
         ticks_left (feed bs s) = ticks_left s + length bs"
  using assms
proof (induction bs arbitrary: s)
  case Nil
  then show ?case by simp
next
  case (Cons b bs)
  have b: "b \<noteq> SYNC1_CHAR" and bs: "SYNC1_CHAR \<notin> set bs"
    using Cons.prems(2) by auto
  note st = scanning_feed_tick[OF Cons.prems(1) b]
  show ?case
    using Cons.IH[OF st[THEN conjunct1] bs] st by simp
qed

lemma scanning_run_ticks:
  assumes "scanning s"
  shows "scanning (run_ticks n s) \<and> nav_fields (run_ticks n s) = nav_fields s \<and>
         ticks_left (run_ticks n s) = ticks_left s - n"
  using assms
proof (induction n arbitrary: s)
  case 0
  then show ?case by simp
next
  case (Suc n)
  note st = scanning_tick[OF Suc.prems]
  show ?case
    using Suc.IH[OF st[THEN conjunct1]] st by simp
qed

lemma scanning_done:
  assumes "scanning s" "ticks_left s = 0"
  shows "state s = STATE_IDLE \<and> uart_rx s = []"
proof (cases "state s = STATE_READ")
  case True
  with assms(1) have "0 < length (uart_rx s)"
    by (auto simp: scanning_def)
  with True assms(2) show ?thesis
    by (simp add: ticks_left_def)
next
  case False
  with assms show ?thesis
    by (auto simp: scanning_def ticks_left_def)
qed

text \<open>
  C8, as the code has it.  From the idle state with an empty queue, a frame whose first
  byte \<open>b\<close> is not \<open>0xB5\<close> is fed one byte per tick.  The tick that reads \<open>b\<close> (the
  second one, whether or not a further byte \<open>r\<close> has arrived by then) puts the parser
  back into the idle state with every navigation field unchanged.  The bytes after \<open>b\<close>
  are then tested one by one as the start of a new frame: if none of them is \<open>0xB5\<close>,
  the navigation fields are unchanged after any number of further ticks, and once as
  many further ticks have run as the frame has bytes the parser is idle with the queue
  empty.
\<close>

theorem bad_first_byte_rejected:
  assumes "state s = STATE_IDLE" and "uart_rx s = []" and "b \<noteq> SYNC1_CHAR"
  shows "state (run_ticks 1 (feed [b] s)) = STATE_IDLE \<and>
         nav_fields (run_ticks 1 (feed [b] s)) = nav_fields s \<and>
         state (feed [b, r] s) = STATE_IDLE \<and>
         nav_fields (feed [b, r] s) = nav_fields s \<and>
         uart_rx (feed [b, r] s) = [r] \<and>
         (SYNC1_CHAR \<notin> set rest \<longrightarrow>
            (\<forall>n. nav_fields (run_ticks n (feed (b # rest) s)) = nav_fields s \<and>
                 (length (b # rest) \<le> n \<longrightarrow>
                    state (run_ticks n (feed (b # rest) s)) = STATE_IDLE \<and>
                    uart_rx (run_ticks n (feed (b # rest) s)) = [])))"
proof -
  have sc: "scanning s" and tl: "ticks_left s = 0"
    using assms(1,2) by (simp_all add: scanning_def ticks_left_def)
  have one: "state (run_ticks 1 (feed [b] s)) = STATE_IDLE \<and>
         nav_fields (run_ticks 1 (feed [b] s)) = nav_fields s"
  proof -
    have "scanning (feed [b] s) \<and> nav_fields (feed [b] s) = nav_fields s \<and>
          ticks_left (feed [b] s) = ticks_left s + length [b]"
      using sc assms(3) by (intro scanning_feed) simp_all
    then have f: "scanning (feed [b] s)" "nav_fields (feed [b] s) = nav_fields s"
      "ticks_left (feed [b] s) = 1"
      using tl by simp_all
    from scanning_run_ticks[OF f(1), of 1] f(2,3) scanning_done[of "run_ticks 1 (feed [b] s)"]
    show ?thesis by simp
  qed
  have two: "state (feed [b, r] s) = STATE_IDLE \<and> nav_fields (feed [b, r] s) = nav_fields s \<and>
         uart_rx (feed [b, r] s) = [r]"
    using assms
    by (simp add: UART_receive_def tick_idle tick_read_sync1 SYNC1_CHAR_def nav_fields_def)
  have rest: "nav_fields (run_ticks n (feed (b # rest) s)) = nav_fields s \<and>
                 (length (b # rest) \<le> n \<longrightarrow>
                    state (run_ticks n (feed (b # rest) s)) = STATE_IDLE \<and>
                    uart_rx (run_ticks n (feed (b # rest) s)) = [])"
    if nb: "SYNC1_CHAR \<notin> set rest" for n
  proof -
    have "SYNC1_CHAR \<notin> set (b # rest)"
      using nb assms(3) by auto
    from scanning_feed[OF sc this] tl
    have f: "scanning (feed (b # rest) s)" "nav_fields (feed (b # rest) s) = nav_fields s"
      "ticks_left (feed (b # rest) s) = length (b # rest)"
      by simp_all
    from scanning_run_ticks[OF f(1), of n] f(2,3)
    have g: "scanning (run_ticks n (feed (b # rest) s))"
      "nav_fields (run_ticks n (feed (b # rest) s)) = nav_fields s"
      "ticks_left (run_ticks n (feed (b # rest) s)) = length (b # rest) - n"
      by simp_all
    show ?thesis
      using g(2) scanning_done[OF g(1)] g(3) by simp
  qed
  show ?thesis
    using one two rest by blast
qed

theorem bad_first_byte_rejected_witness:
  "state gps_init = STATE_IDLE \<and> uart_rx gps_init = [] \<and> (0 :: uint8_t) \<noteq> SYNC1_CHAR \<and>
   SYNC1_CHAR \<notin> set [1, 2] \<and>
   state (feed [0, 1] gps_init) = STATE_IDLE \<and>
   nav_fields (run_ticks 3 (feed [0, 1, 2] gps_init)) = nav_fields gps_init \<and>
   state (run_ticks 3 (feed [0, 1, 2] gps_init)) = STATE_IDLE"
proof -
  have a: "state gps_init = STATE_IDLE" and b: "uart_rx gps_init = []"
    by (simp_all add: gps_init_def)
  have c: "(0 :: uint8_t) \<noteq> SYNC1_CHAR" and d: "SYNC1_CHAR \<notin> set [1, 2]"
    by (simp_all add: SYNC1_CHAR_def)
  note t = bad_first_byte_rejected[OF a b c, of 1 "[1, 2]"]
  from t have t1: "state (feed [0, 1] gps_init) = STATE_IDLE"
    by blast
  from t d have t2: "\<forall>n. nav_fields (run_ticks n (feed [0, 1, 2] gps_init)) = nav_fields gps_init \<and>
      (length [0, 1, 2 :: uint8_t] \<le> n \<longrightarrow>
         state (run_ticks n (feed [0, 1, 2] gps_init)) = STATE_IDLE \<and>
         uart_rx (run_ticks n (feed [0, 1, 2] gps_init)) = [])"
    by blast
  have l: "length [0, 1, 2 :: uint8_t] \<le> 3"
    by simp
  from t2 l have t3: "nav_fields (run_ticks 3 (feed [0, 1, 2] gps_init)) = nav_fields gps_init \<and>
      state (run_ticks 3 (feed [0, 1, 2] gps_init)) = STATE_IDLE"
    by blast
  show ?thesis
    using a b c d t1 t3 by blast
qed

text \<open>
  C8 as stated fails: the frame below has a wrong first byte (0 for \<open>0xB5\<close>), the second
  sync byte, a class, an id, a consistent length of 36 and two checksum bytes, and its
  payload is a complete position frame.  The parser drops the first six bytes one by
  one, synchronises on the payload and stores its latitude, longitude and altitude.
\<close>

theorem bad_first_byte_counterexample:
  "(0 :: uint8_t) \<noteq> SYNC1_CHAR \<and> state gps_init = STATE_IDLE \<and> uart_rx gps_init = [] \<and>
   nav_fields gps_init = (0, 0, 0, 0, 0, 0, 0, False) \<and>
   nav_fields (run_ticks 20 (feed (0 # tl (ubx_frame 0x0A 0x04
       (ubx_frame NAV_CLASS NAV_POSLLH_ID
          ([1, 2, 3, 4] @ le32 1234567 @ le32 7654321 @ [5, 6, 7, 8] @ le32 1000 @
           [9, 10, 11, 12, 13, 14, 15, 16]) 0xAA 0xBB) 0xCC 0xDD)) gps_init)) =
     (7654321, 1234567, 1000, 0, 0, 0, 0, True)"
  by code_simp

lemma length_low_byte_only:
  assumes "state s = STATE_IDLE" and "uart_rx s = []"
  shows "messageLength (feed [0xB5, 0x62, cls, ident, lo, hi, x] s) = lo + 8"
proof -
  have "feed [0xB5, 0x62, cls, ident, lo, hi, x] s =
        feed [x] (feed [0xB5, 0x62, cls, ident, lo, hi] s)"
    using feed_append[of "[0xB5, 0x62, cls, ident, lo, hi]" "[x]" s] by simp
  then show ?thesis
    unfolding feed_header[OF assms]
    by (simp add: UART_receive_def tick_read_length2 length_field)
qed

text \<open>
  C3 on the code.  The frame header \<open>B5 62 01 02\<close> with length bytes 0 and 1 announces
  a payload of 256 bytes, a frame of 264.  After the tick that reads the second length
  byte, \<open>messageLength\<close> is 8: the variable has eight bits, so the high length byte is
  lost when the sum is stored.
\<close>

theorem length_high_byte_lost:
  "unat (messageLength (feed [0xB5, 0x62, 0x01, 0x02, 0x00, 0x01, 0x00] gps_init)) = 8"
  by code_simp

text \<open>
  Frames whose decoded fields lie inside the payload.  For a frame of at most 255 bytes
  in which no decoded four-byte field runs past the end of the payload, the parser
  never reads the cells that hold the two checksum bytes: the frame is marked complete
  whatever they are, and from then on the navigation fields are the same at every tick
  for any two choices of the checksum bytes.
\<close>

lemma unpack32_cong:
  "\<forall>j < n. r' j = r j \<Longrightarrow> k + 4 \<le> n \<Longrightarrow> unpack32 r' k = unpack32 r k"
  by (simp add: unpack32_def)

lemma parse_field_indep:
  assumes agree: "\<forall>j < L + 6. r' j = rawMessage s j"
    and guard: "unat (byteIndex s) < L + 6"
    and inside: "fields_inside (messageClass s) (messageId s) L"
  shows "parsePayloadField (s\<lparr>rawMessage := r'\<rparr>) = (parsePayloadField s)\<lparr>rawMessage := r'\<rparr>"
proof -
  let ?k = "unat (byteIndex s)"
  let ?o = "uint (byteIndex s) - uint PAYLOAD_INDEX"
  have off: "?o = int ?k - 6"
    unfolding uint_nat PAYLOAD_INDEX_def by simp
  have byte: "r' ?k = rawMessage s ?k"
    using agree guard by simp
  have field: "unpack32 r' ?k = unpack32 (rawMessage s) ?k"
    if "nat ?o \<in> set (decoded_fields (messageClass s) (messageId s))" "0 \<le> ?o"
  proof -
    have k: "nat ?o = ?k - 6" "6 \<le> ?k" using that(2) off by arith+
    have "?k - 6 < L" using guard k(2) by simp
    with inside that(1) k(1) have "?k - 6 + 4 \<le> L"
      by (simp add: fields_inside_def)
    then have "?k + 4 \<le> L + 6" using k(2) by simp
    with agree show ?thesis by (rule unpack32_cong)
  qed
  note ids = NAV_CLASS_def NAV_STATUS_ID_def NAV_POSLLH_ID_def NAV_VELOCITY_ID_def
  show ?thesis
  proof (cases "messageClass s = NAV_CLASS")
    case False
    then show ?thesis by (simp add: parsePayloadField_def Let_def)
  next
    case cls: True
    consider (pos) "messageId s = NAV_POSLLH_ID" | (sta) "messageId s = NAV_STATUS_ID"
      | (vel) "messageId s = NAV_VELOCITY_ID"
      | (other) "messageId s \<noteq> NAV_POSLLH_ID" "messageId s \<noteq> NAV_STATUS_ID"
          "messageId s \<noteq> NAV_VELOCITY_ID"
      by blast
    then show ?thesis
    proof cases
      case pos
      have df: "decoded_fields (messageClass s) (messageId s) = [4, 8, 16]"
        using cls pos by (simp add: decoded_fields_def)
      have "?o = 0 \<or> ?o = 4 \<or> ?o = 8 \<or> ?o = 12 \<or> ?o = 16 \<or> ?o = 20 \<or> ?o = 24 \<or>
            (?o \<noteq> 0 \<and> ?o \<noteq> 4 \<and> ?o \<noteq> 8 \<and> ?o \<noteq> 12 \<and> ?o \<noteq> 16 \<and> ?o \<noteq> 20 \<and> ?o \<noteq> 24)"
        by blast
      then show ?thesis
      proof (elim disjE)
        assume d: "?o = 4"
        with field df have "unpack32 r' ?k = unpack32 (rawMessage s) ?k" by simp
        with d cls pos show ?thesis
          by (simp add: parsePayloadField_def Let_def ids split del: if_split)
      next
        assume d: "?o = 8"
        with field df have "unpack32 r' ?k = unpack32 (rawMessage s) ?k" by simp
        with d cls pos show ?thesis
          by (simp add: parsePayloadField_def Let_def ids split del: if_split)
      next
        assume d: "?o = 16"
        with field df have "unpack32 r' ?k = unpack32 (rawMessage s) ?k" by simp
        with d cls pos show ?thesis
          by (simp add: parsePayloadField_def Let_def ids split del: if_split)
      qed (use cls pos in \<open>simp_all add: parsePayloadField_def Let_def ids split del: if_split\<close>)
    next
      case sta
      have "?o = 0 \<or> ?o = 4 \<or> ?o = 5 \<or> ?o = 6 \<or> ?o = 7 \<or> ?o = 8 \<or> ?o = 12 \<or>
            (?o \<noteq> 0 \<and> ?o \<noteq> 4 \<and> ?o \<noteq> 5 \<and> ?o \<noteq> 6 \<and> ?o \<noteq> 7 \<and> ?o \<noteq> 8 \<and> ?o \<noteq> 12)"
        by blast
      then show ?thesis
        by (elim disjE)
          (use cls sta byte in \<open>simp_all add: parsePayloadField_def Let_def ids split del: if_split\<close>)
    next
      case vel
      have df: "decoded_fields (messageClass s) (messageId s) = [4, 8, 24]"
        using cls vel by (simp add: decoded_fields_def ids)
      have "?o = 0 \<or> ?o = 4 \<or> ?o = 8 \<or> ?o = 12 \<or> ?o = 16 \<or> ?o = 20 \<or> ?o = 24 \<or>
            ?o = 28 \<or> ?o = 32 \<or>
            (?o \<noteq> 0 \<and> ?o \<noteq> 4 \<and> ?o \<noteq> 8 \<and> ?o \<noteq> 12 \<and> ?o \<noteq> 16 \<and> ?o \<noteq> 20 \<and> ?o \<noteq> 24 \<and>
             ?o \<noteq> 28 \<and> ?o \<noteq> 32)"
        by blast
      then show ?thesis
      proof (elim disjE)
        assume d: "?o = 4"
        with field df have "unpack32 r' ?k = unpack32 (rawMessage s) ?k" by simp
        with d cls vel show ?thesis
          by (simp add: parsePayloadField_def Let_def ids split del: if_split)
      next
        assume d: "?o = 8"
        with field df have "unpack32 r' ?k = unpack32 (rawMessage s) ?k" by simp
        with d cls vel show ?thesis
          by (simp add: parsePayloadField_def Let_def ids split del: if_split)
      next
        assume d: "?o = 24"
        with field df have "unpack32 r' ?k = unpack32 (rawMessage s) ?k" by simp
        with d cls vel show ?thesis
          by (simp add: parsePayloadField_def Let_def ids split del: if_split)
      qed (use cls vel in \<open>simp_all add: parsePayloadField_def Let_def ids split del: if_split\<close>)
    next
      case other
      then show ?thesis using cls by (simp add: parsePayloadField_def Let_def)
    qed
  qed
qed

lemma parse_field_frame:
  "uart_rx (parsePayloadField s) = uart_rx s"
  "messageLength (parsePayloadField s) = messageLength s"
  "messageClass (parsePayloadField s) = messageClass s"
  "messageId (parsePayloadField s) = messageId s"
  "rawMessage (parsePayloadField s) = rawMessage s"
  "timer_expired (parsePayloadField s) = timer_expired s"
  by (simp_all add: parsePayloadField_def Let_def)

lemma tick_indep:
  assumes rx: "uart_rx s = []" and ml: "unat (messageLength s) = L + 8"
    and inside: "fields_inside (messageClass s) (messageId s) L"
    and agree: "\<forall>j < L + 6. r' j = rawMessage s j"
  shows "GPS_runSM (s\<lparr>rawMessage := r'\<rparr>) = (GPS_runSM s)\<lparr>rawMessage := r'\<rparr> \<and>
         uart_rx (GPS_runSM s) = [] \<and> messageLength (GPS_runSM s) = messageLength s \<and>
         messageClass (GPS_runSM s) = messageClass s \<and> messageId (GPS_runSM s) = messageId s \<and>
         rawMessage (GPS_runSM s) = rawMessage s"
proof (cases "state s")
  case STATE_IDLE
  then show ?thesis using rx
    by (simp add: GPS_runSM_def hasNewByte_def Let_def)
next
  case STATE_READ
  then show ?thesis using rx
    by (simp add: GPS_runSM_def hasNewByte_def startParseState_def Let_def)
next
  case STATE_PARSE
  show ?thesis
  proof (cases "hasNewMessage s \<and> uint (byteIndex s) < uint (messageLength s) - CHECKSUM_BYTES")
    case True
    then have "int (unat (byteIndex s)) < int (unat (messageLength s)) - 2"
      unfolding uint_nat CHECKSUM_BYTES_def by simp
    then have guard: "unat (byteIndex s) < L + 6"
      using ml by linarith
    have run: "GPS_runSM t =
        (if timer_expired t then (parsePayloadField t)\<lparr>isConnected := False\<rparr>
         else parsePayloadField t)"
      if "state t = STATE_PARSE" "hasNewMessage t"
        "uint (byteIndex t) < uint (messageLength t) - CHECKSUM_BYTES" for t
      using that by (simp add: GPS_runSM_def parseMessage_def parse_field_frame Let_def)
    have a: "GPS_runSM s =
        (if timer_expired s then (parsePayloadField s)\<lparr>isConnected := False\<rparr>
         else parsePayloadField s)"
      using STATE_PARSE True by (intro run) simp_all
    have b: "GPS_runSM (s\<lparr>rawMessage := r'\<rparr>) =
        (if timer_expired s then (parsePayloadField (s\<lparr>rawMessage := r'\<rparr>))\<lparr>isConnected := False\<rparr>
         else parsePayloadField (s\<lparr>rawMessage := r'\<rparr>))"
      using STATE_PARSE True run[of "s\<lparr>rawMessage := r'\<rparr>"] by simp
    show ?thesis
      unfolding a b parse_field_indep[OF agree guard inside]
      using rx by (simp add: parse_field_frame)
  next
    case False
    then show ?thesis using STATE_PARSE rx
      by (auto simp: GPS_runSM_def parseMessage_def startIdleState_def Let_def)
  qed
qed

lemma run_ticks_indep:
  assumes "uart_rx s = []" and "unat (messageLength s) = L + 8"
    and "fields_inside (messageClass s) (messageId s) L"
    and "\<forall>j < L + 6. r' j = rawMessage s j"
  shows "run_ticks n (s\<lparr>rawMessage := r'\<rparr>) = (run_ticks n s)\<lparr>rawMessage := r'\<rparr>"
  using assms
proof (induction n arbitrary: s)
  case 0
  then show ?case by simp
next
  case (Suc n)
  note t = tick_indep[OF Suc.prems]
  have "run_ticks n ((GPS_runSM s)\<lparr>rawMessage := r'\<rparr>) =
        (run_ticks n (GPS_runSM s))\<lparr>rawMessage := r'\<rparr>"
    using t Suc.prems by (intro Suc.IH) simp_all
  then show ?case using t by simp
qed

lemma frame_prefix:
  assumes "j < length pl + 6"
  shows "ubx_frame cls ident pl a' b' ! j = ubx_frame cls ident pl a b ! j"
proof -
  let ?h = "[SYNC1_CHAR, SYNC2_CHAR, cls, ident,
      of_nat (length pl mod 256), of_nat (length pl div 256)] @ pl"
  have l: "j < length ?h" using assms by simp
  have "ubx_frame cls ident pl a' b' = ?h @ [a', b']" "ubx_frame cls ident pl a b = ?h @ [a, b]"
    by (simp_all add: ubx_frame_def)
  then show ?thesis
    using l by (simp only: nth_append if_True)
qed

lemma checksum_independent_inside:
  assumes idle: "state s = STATE_IDLE" and empty: "uart_rx s = []" and len: "length pl \<le> 247"
    and inside: "fields_inside cls ident (length pl)"
  shows "hasNewMessage (run_ticks 1 (feed (ubx_frame cls ident pl a b) s)) \<and>
         (\<forall>n. nav_fields (run_ticks (Suc n) (feed (ubx_frame cls ident pl a' b') s)) =
              nav_fields (run_ticks (Suc n) (feed (ubx_frame cls ident pl a b) s)))"
proof -
  let ?L = "length pl"
  let ?raw = "store (rawMessage s) 0 (ubx_frame cls ident pl a b)"
  let ?raw' = "store (rawMessage s) 0 (ubx_frame cls ident pl a' b')"
  let ?p = "s\<lparr>state := STATE_PARSE, rawMessage := ?raw,
       uart_rx := [], byteIndex := 6, messageLength := of_nat ?L + 8,
       messageClass := cls, messageId := ident, hasNewMessage := True, isConnected := True,
       timer_expired := False\<rparr>"
  have p: "run_ticks 1 (feed (ubx_frame cls ident pl a b) s) = ?p"
    using idle empty len by (rule feed_frame)
  have "run_ticks 1 (feed (ubx_frame cls ident pl a' b') s) =
     s\<lparr>state := STATE_PARSE, rawMessage := ?raw',
       uart_rx := [], byteIndex := 6, messageLength := of_nat ?L + 8,
       messageClass := cls, messageId := ident, hasNewMessage := True, isConnected := True,
       timer_expired := False\<rparr>"
    using idle empty len by (rule feed_frame)
  then have p': "run_ticks 1 (feed (ubx_frame cls ident pl a' b') s) = ?p\<lparr>rawMessage := ?raw'\<rparr>"
    by simp
  have fl: "length (ubx_frame cls ident pl a b) = ?L + 8"
    "length (ubx_frame cls ident pl a' b') = ?L + 8"
    by (simp_all add: ubx_frame_def)
  have agree: "\<forall>j < ?L + 6. ?raw' j = rawMessage ?p j"
    using frame_prefix[of _ pl cls ident a' b' a b] by (simp add: store_def fl)
  have ml: "unat (messageLength ?p) = ?L + 8"
    using len unat_small[of "?L + 8"] by simp
  have rx: "uart_rx ?p = []" and fi: "fields_inside (messageClass ?p) (messageId ?p) ?L"
    using inside by simp_all
  have split: "run_ticks (Suc n) t = run_ticks n (run_ticks 1 t)" for n t
    by simp
  have "nav_fields (run_ticks (Suc n) (feed (ubx_frame cls ident pl a' b') s)) =
        nav_fields (run_ticks (Suc n) (feed (ubx_frame cls ident pl a b) s))" for n
    unfolding split[of n] p p' run_ticks_indep[OF rx ml fi agree]
    by (simp add: nav_fields_def)
  then show ?thesis
    unfolding p by simp
qed

text \<open>
  C6 on the code.  A position frame with valid sync bytes and a consistent payload
  length of 6 is read completely and parsed.  The longitude field starts at payload
  offset 4 and is four bytes wide, so the parser reads two payload bytes and the two
  checksum bytes: the stored longitude is \<open>0xBBAA0000\<close> for the checksum bytes
  \<open>AA BB\<close> and \<open>0xDDCC0000\<close> for \<open>CC DD\<close>.
\<close>

theorem checksum_bytes_decoded:
  "geodetic_longitude (run_ticks 5 (feed (ubx_frame NAV_CLASS NAV_POSLLH_ID [0, 0, 0, 0, 0, 0]
       0xAA 0xBB) gps_init)) = 0xBBAA0000 \<and>
   geodetic_longitude (run_ticks 5 (feed (ubx_frame NAV_CLASS NAV_POSLLH_ID [0, 0, 0, 0, 0, 0]
       0xCC 0xDD) gps_init)) = 0xDDCC0000"
  by code_simp

text \<open>
  C7, as the code has it.  With error correction enabled the accessors convert and scale
  the stored position minus the error offset (the 32-bit difference); with error
  correction disabled they convert and scale the stored position itself.
\<close>

theorem error_correction_subtracts:
  "GPS_getLatitude to_float fdiv (GPS_enableErrorCorrection (GPS_setLatitudeError e s)) =
     fdiv (to_float (sint (geodetic_latitude s - e))) (to_float 10000000) \<and>
   GPS_getLongitude to_float fdiv (GPS_enableErrorCorrection (GPS_setLongitudeError e s)) =
     fdiv (to_float (sint (geodetic_longitude s - e))) (to_float 10000000) \<and>
   GPS_getLatitude to_float fdiv (GPS_disableErrorCorrection s) =
     fdiv (to_float (sint (geodetic_latitude s))) (to_float 10000000) \<and>
   GPS_getLongitude to_float fdiv (GPS_disableErrorCorrection s) =
     fdiv (to_float (sint (geodetic_longitude s))) (to_float 10000000)"
  by (simp add: GPS_getLatitude_def GPS_getLongitude_def COORDINATE_TO_DECIMAL_def
      GPS_enableErrorCorrection_def GPS_disableErrorCorrection_def GPS_setLatitudeError_def
      GPS_setLongitudeError_def)

text \<open>
  C7 as stated fails: with a stored latitude of 100 and an error offset of 30 the
  accessor scales 70 and not 130 (here with the exact conversion and division of the
  reals in place of the \<open>float\<close> ones).
\<close>

theorem error_correction_counterexample:
  "GPS_getLatitude real_of_int (/)
     (GPS_enableErrorCorrection (GPS_setLatitudeError 30 (gps_init\<lparr>geodetic_latitude := 100\<rparr>)))
     = real_of_int (100 - 30) / 10000000 \<and>
   GPS_getLatitude real_of_int (/)
     (GPS_enableErrorCorrection (GPS_setLatitudeError 30 (gps_init\<lparr>geodetic_latitude := 100\<rparr>)))
     \<noteq> real_of_int (100 + 30) / 10000000"
  by (simp add: GPS_getLatitude_def COORDINATE_TO_DECIMAL_def
      GPS_enableErrorCorrection_def GPS_setLatitudeError_def gps_init_def)

section \<open>Properties of the command protocol\<close>

lemma map_store: "map (store raw 0 xs) [0..<length xs] = xs"
proof -
  have "map (store raw 0 xs) [0..<length xs] = map (\<lambda>i. xs ! i) [0..<length xs]"
    by (intro map_cong) (simp_all add: store_def)
  then show ?thesis by (simp only: map_nth)
qed

lemma send_start_rescue_ack:
  assumes "wire = fst (mavlink_finalize_to_buffer X (lib st) MAV_NUMBER COMP_ID
                     MAVLINK_MSG_ID_START_RESCUE
                     (start_rescue_payload TRUE status_v
                        (float_to_uint32 X latitude_v) (float_to_uint32 X longitude_v)) 50)"
    and "length wire \<le> MAVLINK_MAX_PACKET_LEN X"
    and "st1 = Mavlink_send_start_rescue X stack uart_id TRUE status_v latitude_v longitude_v st"
  shows "ACK_status (start_rescue st1) = ACK_STATUS_WAIT"
    and "map (last_buf (start_rescue st1)) [0..<last_length (start_rescue st1)] = wire"
    and "last_length (start_rescue st1) = length wire"
    and "last_uart_id (start_rescue st1) = uart_id"
    and "trace st1 = trace st @ [UART_putString uart_id wire]"
proof -
  have m: "map (\<lambda>x. if x \<le> MAVLINK_MAX_PACKET_LEN X then store stack 0 wire x
                     else last_buf (start_rescue st) x) [0..<length wire] =
           map (store stack 0 wire) [0..<length wire]"
    using assms(2) by (intro map_cong) simp_all
  show "ACK_status (start_rescue st1) = ACK_STATUS_WAIT"
    "last_length (start_rescue st1) = length wire"
    "last_uart_id (start_rescue st1) = uart_id"
    by (simp_all add: assms(1,3) Mavlink_send_start_rescue_def Let_def)
  show "trace st1 = trace st @ [UART_putString uart_id wire]"
    unfolding assms(3) Mavlink_send_start_rescue_def Let_def assms(1)[symmetric]
    by (simp add: map_store)
  show "map (last_buf (start_rescue st1)) [0..<last_length (start_rescue st1)] = wire"
    unfolding assms(3) Mavlink_send_start_rescue_def Let_def assms(1)[symmetric]
    by (simp add: m map_store)
qed

lemma recieve_ACK_start_rescue:
  "ACK_status (start_rescue (Mavlink_recieve_ACK X (messageName_start_rescue X) st)) =
     ACK_STATUS_RECIEVED"
  "last_buf (start_rescue (Mavlink_recieve_ACK X n st)) = last_buf (start_rescue st)"
  "last_length (start_rescue (Mavlink_recieve_ACK X n st)) = last_length (start_rescue st)"
  "last_uart_id (start_rescue (Mavlink_recieve_ACK X n st)) = last_uart_id (start_rescue st)"
  "trace (Mavlink_recieve_ACK X n st) = trace st"
  by (simp_all add: Mavlink_recieve_ACK_def)

lemma resend_effect:
  "trace (resend_start_rescue st) =
     trace st @ [UART_putString (last_uart_id (start_rescue st))
                   (map (last_buf (start_rescue st)) [0..<last_length (start_rescue st)])]"
  "ACK_status (start_rescue (resend_start_rescue st)) = ACK_STATUS_WAIT"
  "last_buf (start_rescue (resend_start_rescue st)) = last_buf (start_rescue st)"
  "last_length (start_rescue (resend_start_rescue st)) = last_length (start_rescue st)"
  "last_uart_id (start_rescue (resend_start_rescue st)) = last_uart_id (start_rescue st)"
  by (simp_all add: resend_start_rescue_def Mavlink_resend_message_def Let_def)

text \<open>
  C4.  Let \<open>wire\<close> be the bytes that the library writes into the send buffer for the
  rescue-start message with the \<open>ack\<close> byte \<open>TRUE\<close>, at most \<open>MAVLINK_MAX_PACKET_LEN\<close> of
  them.  After \<open>Mavlink_send_start_rescue\<close> the status is \<open>ACK_STATUS_WAIT\<close>, the first
  \<open>last_length\<close> bytes of \<open>last_buf\<close> are \<open>wire\<close>, \<open>last_length\<close> is their number,
  \<open>last_uart_id\<close> is the channel, and \<open>wire\<close> was handed to \<open>UART_putString\<close> on that
  channel.  \<open>Mavlink_recieve_ACK\<close> with the message name \<open>messageName_start_rescue\<close> then
  sets the status to \<open>ACK_STATUS_RECIEVED\<close>.  A resend, before or after that
  acknowledgment, hands \<open>wire\<close> to \<open>UART_putString\<close> on the stored channel again and sets
  the status to \<open>ACK_STATUS_WAIT\<close>.
\<close>

theorem rescue_start_ack_cycle:
  assumes "wire = fst (mavlink_finalize_to_buffer X (lib st) MAV_NUMBER COMP_ID
                     MAVLINK_MSG_ID_START_RESCUE
                     (start_rescue_payload TRUE status_v
                        (float_to_uint32 X latitude_v) (float_to_uint32 X longitude_v)) 50)"
    and "length wire \<le> MAVLINK_MAX_PACKET_LEN X"
    and "st1 = Mavlink_send_start_rescue X stack uart_id TRUE status_v latitude_v longitude_v st"
    and "st2 = Mavlink_recieve_ACK X (messageName_start_rescue X) st1"
  shows "ACK_status (start_rescue st1) = ACK_STATUS_WAIT \<and>
         map (last_buf (start_rescue st1)) [0..<last_length (start_rescue st1)] = wire \<and>
         last_length (start_rescue st1) = length wire \<and>
         last_uart_id (start_rescue st1) = uart_id \<and>
         trace st1 = trace st @ [UART_putString uart_id wire] \<and>
         ACK_status (start_rescue st2) = ACK_STATUS_RECIEVED \<and>
         trace (resend_start_rescue st1) = trace st1 @ [UART_putString uart_id wire] \<and>
         ACK_status (start_rescue (resend_start_rescue st1)) = ACK_STATUS_WAIT \<and>
         trace (resend_start_rescue st2) = trace st2 @ [UART_putString uart_id wire] \<and>
         ACK_status (start_rescue (resend_start_rescue st2)) = ACK_STATUS_WAIT"
  using send_start_rescue_ack[OF assms(1-3)]
  by (simp add: assms(4) recieve_ACK_start_rescue resend_effect)

theorem rescue_start_ack_cycle_witness:
  "length [0xFE, 241, 5, 0, 0, 0, 6, 0, 0, 0, 1, 0 :: uint8_t]
     \<le> MAVLINK_MAX_PACKET_LEN example_extern \<and>
   ACK_status (start_rescue
     (Mavlink_send_start_rescue example_extern (\<lambda>_. 0) 1 TRUE 0 5 6 mavlink_init))
     = ACK_STATUS_WAIT \<and>
   trace (resend_start_rescue
     (Mavlink_send_start_rescue example_extern (\<lambda>_. 0) 1 TRUE 0 5 6 mavlink_init)) =
     [UART_putString 1 [0xFE, 241, 5, 0, 0, 0, 6, 0, 0, 0, 1, 0],
      UART_putString 1 [0xFE, 241, 5, 0, 0, 0, 6, 0, 0, 0, 1, 0]] \<and>
   ACK_status (start_rescue (Mavlink_recieve_ACK example_extern 7
     (Mavlink_send_start_rescue example_extern (\<lambda>_. 0) 1 TRUE 0 5 6 mavlink_init)))
     = ACK_STATUS_RECIEVED"
proof -
  let ?st1 = "Mavlink_send_start_rescue example_extern (\<lambda>_. 0) 1 TRUE 0 5 6 mavlink_init"
  let ?wire = "[0xFE, 241, 5, 0, 0, 0, 6, 0, 0, 0, 1, 0] :: uint8_t list"
  have w: "?wire = fst (mavlink_finalize_to_buffer example_extern (lib mavlink_init) MAV_NUMBER
                     COMP_ID MAVLINK_MSG_ID_START_RESCUE
                     (start_rescue_payload TRUE 0
                        (float_to_uint32 example_extern 5) (float_to_uint32 example_extern 6)) 50)"
    by (simp add: example_extern_def start_rescue_payload_def le32_def TRUE_def
        MAVLINK_MSG_ID_START_RESCUE_def)
  have l: "length ?wire \<le> MAVLINK_MAX_PACKET_LEN example_extern"
    by (simp add: example_extern_def)
  have n: "messageName_start_rescue example_extern = 7"
    by (simp add: example_extern_def)
  have t0: "trace mavlink_init = []"
    by (simp add: mavlink_init_def)
  note t = rescue_start_ack_cycle[OF w l refl refl, of "\<lambda>_. 0" 1]
  show ?thesis
    using t l by (simp add: n t0)
qed

lemma trace_handle_message: "\<exists>es. trace (handle_message X msg st) = trace st @ es"
  by (simp add: handle_message_def Mavlink_send_ACK_def Compas_recieve_start_rescue_def
      Mavlink_recieve_ACK_def Let_def)

lemma trace_recieve_loop: "\<exists>es. trace (recieve_loop X cs st) = trace st @ es"
proof (induction cs arbitrary: st)
  case Nil
  then show ?case by simp
next
  case (Cons c cs)
  let ?st0 = "st\<lparr>lib := snd (mavlink_parse_char X (lib st) c)\<rparr>"
  show ?case
  proof (cases "fst (mavlink_parse_char X (lib st) c)")
    case None
    then show ?thesis using Cons.IH[of ?st0] by simp
  next
    case (Some msg)
    obtain es1 where "trace (handle_message X msg ?st0) = trace ?st0 @ es1"
      using trace_handle_message by blast
    moreover obtain es2 where
      "trace (recieve_loop X cs (handle_message X msg ?st0)) =
         trace (handle_message X msg ?st0) @ es2"
      using Cons.IH by blast
    ultimately show ?thesis using Some by simp
  qed
qed

lemma recieve_loop_append:
  "recieve_loop X (xs @ ys) st = recieve_loop X ys (recieve_loop X xs st)"
  by (induction xs arbitrary: st) (simp_all split: option.splits)

lemma handle_start_rescue:
  assumes "msgid msg = MAVLINK_MSG_ID_START_RESCUE"
    and "MAVLINK_MSG_ID_XBEE_HEARTBEAT X \<noteq> MAVLINK_MSG_ID_START_RESCUE"
  shows "trace (handle_message X msg st) =
     trace st @
     (if ack (mavlink_msg_start_rescue_decode msg) = TRUE
      then [UART_putString (XBEE_UART_ID X)
              (fst (mavlink_msg_mavlink_ack_pack X (lib st) MAV_NUMBER COMP_ID
                      (messageName_start_rescue X)))]
      else []) @
     [Printf_Lat_Long (latitude (mavlink_msg_start_rescue_decode msg))
        (longitude (mavlink_msg_start_rescue_decode msg))]"
  using assms
  by (simp add: handle_message_def Mavlink_send_ACK_def Compas_recieve_start_rescue_def Let_def)

lemma handle_start_rescue_state:
  assumes "msgid msg = MAVLINK_MSG_ID_START_RESCUE"
    and "MAVLINK_MSG_ID_XBEE_HEARTBEAT X \<noteq> MAVLINK_MSG_ID_START_RESCUE"
  shows "handle_message X msg st =
     (if payload msg 8 = TRUE then
        st\<lparr>lib := snd (mavlink_msg_mavlink_ack_pack X (lib st) MAV_NUMBER COMP_ID
                          (messageName_start_rescue X)),
           trace := trace st @
             [UART_putString (XBEE_UART_ID X)
                (fst (mavlink_msg_mavlink_ack_pack X (lib st) MAV_NUMBER COMP_ID
                        (messageName_start_rescue X))),
              Printf_Lat_Long (unpack32 (payload msg) 0) (unpack32 (payload msg) 4)]\<rparr>
      else
        st\<lparr>trace := trace st @
             [Printf_Lat_Long (unpack32 (payload msg) 0) (unpack32 (payload msg) 4)]\<rparr>)"
  using assms
  by (simp add: handle_message_def Mavlink_send_ACK_def Compas_recieve_start_rescue_def
      mavlink_msg_start_rescue_decode_def Let_def)

text \<open>
  C10.  Let the receive loop have taken the bytes \<open>pre\<close> and let the next byte \<open>c\<close>
  complete a frame whose identifier is that of the rescue-start message; the decoded
  coordinates are the payload bytes 0 to 3 and 4 to 7, the \<open>ack\<close> field is payload
  byte 8.  If the \<open>ack\<close> field is \<open>TRUE\<close>, the frame adds exactly two events to the
  trace: the acknowledgment naming \<open>messageName_start_rescue\<close>, handed to
  \<open>UART_putString\<close> on \<open>XBEE_UART_ID\<close>, and after it the hand-over of the decoded
  coordinates.  Otherwise the frame adds exactly one event, the hand-over, and no
  acknowledgment, neither before nor after it.  In both cases \<open>Mavlink_recieve\<close> then
  goes on with the remaining bytes \<open>cs\<close> from the state \<open>st2\<close> so reached, in which
  nothing but the library state and the trace has changed; when \<open>c\<close> is the last byte,
  the trace of \<open>Mavlink_recieve\<close> ends with these events.
\<close>

theorem recieve_start_rescue_acks_first:
  assumes "st1 = recieve_loop X pre st"
    and "mavlink_parse_char X (lib st1) c = (Some msg, l')"
    and "msgid msg = MAVLINK_MSG_ID_START_RESCUE"
    and "MAVLINK_MSG_ID_XBEE_HEARTBEAT X \<noteq> MAVLINK_MSG_ID_START_RESCUE"
    and "hand_over = Printf_Lat_Long (unpack32 (payload msg) 0) (unpack32 (payload msg) 4)"
    and "acknowledgment =
           UART_putString (XBEE_UART_ID X)
             (fst (mavlink_msg_mavlink_ack_pack X l' MAV_NUMBER COMP_ID
                     (messageName_start_rescue X)))"
    and "st2 =
           (if payload msg 8 = TRUE then
              st1\<lparr>lib := snd (mavlink_msg_mavlink_ack_pack X l' MAV_NUMBER COMP_ID
                                 (messageName_start_rescue X)),
                  trace := trace st1 @ [acknowledgment, hand_over]\<rparr>
            else st1\<lparr>lib := l', trace := trace st1 @ [hand_over]\<rparr>)"
  shows "recieve_loop X (pre @ [c]) st = st2 \<and>
         Mavlink_recieve X (pre @ c # cs) st = Mavlink_recieve X cs st2 \<and>
         trace (Mavlink_recieve X (pre @ [c]) st) =
           trace st1 @ (if payload msg 8 = TRUE then [acknowledgment] else []) @ [hand_over] \<and>
         (\<exists>later. trace (Mavlink_recieve X (pre @ c # cs) st) =
             trace st1 @ (if payload msg 8 = TRUE then [acknowledgment] else []) @ [hand_over]
               @ later \<and>
             trace (recieve_loop X cs st2) = trace st2 @ later)"
proof -
  let ?st0 = "st1\<lparr>lib := l'\<rparr>"
  have h: "handle_message X msg ?st0 = st2"
    unfolding handle_start_rescue_state[OF assms(3,4)] assms(7) assms(6) assms(5)
    by simp
  have one: "recieve_loop X (pre @ [c]) st = st2"
    using assms(1,2) h by (simp add: recieve_loop_append)
  have step: "recieve_loop X (pre @ c # cs) st = recieve_loop X cs st2"
    using assms(1,2) h by (simp add: recieve_loop_append)
  have t2: "trace st2 =
      trace st1 @ (if payload msg 8 = TRUE then [acknowledgment] else []) @ [hand_over]"
    by (simp add: assms(7))
  obtain later where later: "trace (recieve_loop X cs st2) = trace st2 @ later"
    using trace_recieve_loop by blast
  have a: "Mavlink_recieve X (pre @ c # cs) st = Mavlink_recieve X cs st2"
    using step by (simp add: Mavlink_recieve_def)
  have b: "trace (Mavlink_recieve X (pre @ [c]) st) = trace st2"
    using one by (simp add: Mavlink_recieve_def Let_def)
  have c: "trace (Mavlink_recieve X (pre @ c # cs) st) = trace st2 @ later"
    using step later by (simp add: Mavlink_recieve_def Let_def)
  show ?thesis
    using one a b c later unfolding t2 by auto
qed

theorem recieve_start_rescue_acks_first_witness:
  "mavlink_parse_char example_extern (lib (recieve_loop example_extern [] mavlink_init)) 0 =
     (Some example_msg, ()) \<and>
   mavlink_parse_char example_extern (lib (recieve_loop example_extern [] mavlink_init)) 1 =
     (Some example_msg_noack, ()) \<and>
   msgid example_msg = MAVLINK_MSG_ID_START_RESCUE \<and>
   msgid example_msg_noack = MAVLINK_MSG_ID_START_RESCUE \<and>
   MAVLINK_MSG_ID_XBEE_HEARTBEAT example_extern \<noteq> MAVLINK_MSG_ID_START_RESCUE \<and>
   payload example_msg 8 = TRUE \<and> payload example_msg_noack 8 \<noteq> TRUE \<and>
   trace (Mavlink_recieve example_extern [0] mavlink_init) =
     [UART_putString 1 [0xFE, 7], Printf_Lat_Long 5 6] \<and>
   trace (Mavlink_recieve example_extern [1] mavlink_init) = [Printf_Lat_Long 8 9]"
proof -
  have p: "mavlink_parse_char example_extern (lib (recieve_loop example_extern [] mavlink_init)) 0 =
     (Some example_msg, ())"
    "mavlink_parse_char example_extern (lib (recieve_loop example_extern [] mavlink_init)) 1 =
     (Some example_msg_noack, ())"
    by (simp_all add: example_extern_def)
  have i: "msgid example_msg = MAVLINK_MSG_ID_START_RESCUE"
    "msgid example_msg_noack = MAVLINK_MSG_ID_START_RESCUE"
    by (simp_all add: example_msg_def example_msg_noack_def MAVLINK_MSG_ID_START_RESCUE_def)
  have h: "MAVLINK_MSG_ID_XBEE_HEARTBEAT example_extern \<noteq> MAVLINK_MSG_ID_START_RESCUE"
    by (simp add: example_extern_def MAVLINK_MSG_ID_START_RESCUE_def)
  have d: "payload example_msg 8 = TRUE" "payload example_msg_noack 8 \<noteq> TRUE"
    by (simp_all add: example_msg_def example_msg_noack_def TRUE_def)
  have v: "unpack32 (payload example_msg) 0 = 5" "unpack32 (payload example_msg) 4 = 6"
    "unpack32 (payload example_msg_noack) 0 = 8" "unpack32 (payload example_msg_noack) 4 = 9"
    by (simp_all add: example_msg_def example_msg_noack_def unpack32_def)
  have x: "XBEE_UART_ID example_extern = 1"
    "fst (mavlink_msg_mavlink_ack_pack example_extern () MAV_NUMBER COMP_ID
            (messageName_start_rescue example_extern)) = [0xFE, 7]"
    by (simp_all add: example_extern_def)
  have t0: "trace (recieve_loop example_extern [] mavlink_init) = []" "trace mavlink_init = []"
    by (simp_all add: mavlink_init_def)
  note yes = recieve_start_rescue_acks_first[OF refl p(1) i(1) h refl refl refl, of "[]",
      THEN conjunct2, THEN conjunct2, THEN conjunct1]
  note no = recieve_start_rescue_acks_first[OF refl p(2) i(2) h refl refl refl, of "[]",
      THEN conjunct2, THEN conjunct2, THEN conjunct1]
  have ty: "trace (Mavlink_recieve example_extern [0] mavlink_init) =
     [UART_putString 1 [0xFE, 7], Printf_Lat_Long 5 6]"
    using yes d(1) by (simp add: v x t0)
  have tn: "trace (Mavlink_recieve example_extern [1] mavlink_init) = [Printf_Lat_Long 8 9]"
    using no d(2) by (simp add: v t0)
  show ?thesis
    using p i h d ty tn by blast
qed

end
